theory Spec2Isabelle
  imports Complex_Main "HOL-Library.Word"
begin

unbundle bit_operations_syntax

section \<open>Bytes, machine integers and float32 bit patterns\<close>

text \<open>
  The converter \<^verbatim>\<open>scripts/convert_blmm_to_brs1.py\<close> moves 32-bit quantities between
  files.  A byte is an \<open>8 word\<close>, a \<^verbatim>\<open>uint32\<close> a \<open>32 word\<close>, and a \<^verbatim>\<open>float32\<close> is
  represented by its IEEE-754 binary32 bit pattern, again a \<open>32 word\<close>: sign in bit 31,
  exponent in bits 30..23, fraction in bits 22..0.  NaN tests and comparisons of
  non-NaN values are exact functions of the bit pattern and are defined below; rounding
  arithmetic is not modelled and is a parameter where the code needs it.
\<close>

type_synonym byte = "8 word"

type_synonym u32 = "32 word"

type_synonym f32 = "32 word"

text \<open>The exceptions the converter can raise, one constructor per raise site or library failure.\<close>

datatype error =
    InvalidMagic "byte list"       \<comment> \<open>\<^verbatim>\<open>ValueError("Invalid FreeSurfer magic: ...")\<close>\<close>
  | UnexpectedEOF                  \<comment> \<open>\<^verbatim>\<open>ValueError("Unexpected EOF reading comment")\<close>\<close>
  | SizeMismatch nat nat nat       \<comment> \<open>\<^verbatim>\<open>ValueError("Data size mismatch: ...")\<close>\<close>
  | StructError                    \<comment> \<open>\<^verbatim>\<open>struct.error\<close>: short buffer on unpack, value out of range on pack\<close>
  | IndexError                     \<comment> \<open>numpy index out of bounds\<close>
  | KeyError string                \<comment> \<open>missing dictionary key\<close>
  | FileNotFoundError string       \<comment> \<open>\<^verbatim>\<open>open\<close> or \<^verbatim>\<open>np.fromfile\<close> on a missing path\<close>

definition bind_err :: "error + 'a \<Rightarrow> ('a \<Rightarrow> error + 'b) \<Rightarrow> error + 'b" where
  "bind_err r f = (case r of Inl e \<Rightarrow> Inl e | Inr x \<Rightarrow> f x)"

subsection \<open>Little-endian and big-endian 32-bit fields\<close>

definition le_bytes :: "u32 \<Rightarrow> byte list" where
  "le_bytes w = [ucast w, ucast (drop_bit 8 w), ucast (drop_bit 16 w), ucast (drop_bit 24 w)]"

definition le_word :: "byte \<Rightarrow> byte \<Rightarrow> byte \<Rightarrow> byte \<Rightarrow> u32" where
  "le_word b0 b1 b2 b3 =
     ucast b0 OR push_bit 8 (ucast b1) OR push_bit 16 (ucast b2) OR push_bit 24 (ucast b3)"

definition be_word :: "byte \<Rightarrow> byte \<Rightarrow> byte \<Rightarrow> byte \<Rightarrow> u32" where
  "be_word b0 b1 b2 b3 = le_word b3 b2 b1 b0"

text \<open>\<^verbatim>\<open>struct.pack("<I", n)\<close>: a Python integer outside \<open>[0, 2^32)\<close> raises \<^verbatim>\<open>struct.error\<close>.\<close>

definition pack_u32 :: "nat \<Rightarrow> error + byte list" where
  "pack_u32 n = (if n < 2 ^ 32 then Inr (le_bytes (of_nat n)) else Inl StructError)"

text \<open>
  \<^verbatim>\<open>ndarray.tobytes()\<close> of a float32 array and \<^verbatim>\<open>np.fromfile(..., dtype=np.float32)\<close> use the
  host's byte order; the model is of a little-endian host.  \<^verbatim>\<open>np.fromfile\<close> reads whole
  items only, so up to three trailing bytes are dropped.
\<close>

definition tobytes :: "f32 list \<Rightarrow> byte list" where
  "tobytes xs = concat (map le_bytes xs)"

fun np_fromfile :: "byte list \<Rightarrow> f32 list" where
  "np_fromfile (b0 # b1 # b2 # b3 # rest) = le_word b0 b1 b2 b3 # np_fromfile rest"
| "np_fromfile _ = []"

text \<open>
  \<^verbatim>\<open>struct.unpack(">I", f.read(4))[0]\<close>: the next four bytes, high byte first, as a
  \<^verbatim>\<open>uint32\<close>.  At the end of the stream \<^verbatim>\<open>f.read(4)\<close> is short and \<^verbatim>\<open>struct.unpack\<close> raises.
\<close>

fun unpack_be :: "byte list \<Rightarrow> error + (u32 \<times> byte list)" where
  "unpack_be (b0 # b1 # b2 # b3 # rest) = Inr (be_word b0 b1 b2 b3, rest)"
| "unpack_be _ = Inl StructError"

subsection \<open>NaN test, quiet NaN and order of float32 values\<close>

text \<open>
  A binary32 pattern is a NaN when its exponent is all ones and its fraction is not zero.
  A NaN is quiet when the top fraction bit (bit 22) is set and signalling otherwise.
\<close>

definition isnan :: "f32 \<Rightarrow> bool" where
  "isnan w \<longleftrightarrow> (w AND 0x7FFFFFFF) > 0x7F800000"

definition is_snan :: "f32 \<Rightarrow> bool" where
  "is_snan w \<longleftrightarrow> isnan w \<and> \<not> bit w 22"

text \<open>
  A float32 value that passes through a Python float, which is a double: widening and
  narrowing keep every value that is not a NaN and the payload of a NaN, and turn a
  signalling NaN into the quiet NaN of the same payload.
\<close>

definition quiet :: "f32 \<Rightarrow> f32" where
  "quiet w = (if isnan w then w OR 0x00400000 else w)"

text \<open>
  \<^verbatim>\<open>struct.pack("<f", x)\<close> for a value \<open>x\<close> that is a float32 (a numpy float32 scalar, or a
  Python float obtained from one): \<^verbatim>\<open>struct\<close> takes the value as a double and narrows it, so
  the four bytes, low byte first, are those of the pattern after \<open>quiet\<close>.
\<close>

definition pack_f32 :: "f32 \<Rightarrow> byte list" where
  "pack_f32 x = le_bytes (quiet x)"

text \<open>
  \<^verbatim>\<open>struct.unpack(">f", f.read(4))[0]\<close>, stored into the float32 array: the value is a
  Python float on the way, so the pattern kept is the one after \<open>quiet\<close>.
\<close>

definition unpack_f32_be :: "byte list \<Rightarrow> error + (f32 \<times> byte list)" where
  "unpack_f32_be f = (case unpack_be f of Inl e \<Rightarrow> Inl e | Inr (w, rest) \<Rightarrow> Inr (quiet w, rest))"

text \<open>
  For patterns that are not NaN, the IEEE order is the order of the sign-magnitude integers
  (\<open>-0.0\<close> and \<open>+0.0\<close> both map to 0, the infinities to \<open>\<plusminus> 0x7F800000\<close>).
\<close>

definition f32_key :: "f32 \<Rightarrow> int" where
  "f32_key w = (if bit w 31 then - uint (w AND 0x7FFFFFFF) else uint (w AND 0x7FFFFFFF))"

definition f32_less :: "f32 \<Rightarrow> f32 \<Rightarrow> bool" where
  "f32_less a b \<longleftrightarrow> f32_key a < f32_key b"

text \<open>
  \<^verbatim>\<open>np.min\<close> and \<^verbatim>\<open>np.max\<close> of a non-empty array without NaN.  The converter calls them
  only behind a \<^verbatim>\<open>len(...) > 0\<close> test.  Two samples have equal value and different patterns
  only when they are \<open>+0.0\<close> and \<open>-0.0\<close>; of two samples of equal value the later one is kept.
\<close>

fun np_min :: "f32 list \<Rightarrow> f32" where
  "np_min (x # xs) = foldl (\<lambda>m y. if f32_less m y then m else y) x xs"

fun np_max :: "f32 list \<Rightarrow> f32" where
  "np_max (x # xs) = foldl (\<lambda>m y. if f32_less y m then m else y) x xs"

subsection \<open>Files and console\<close>

text \<open>
  The file system is a map from paths to file contents; directories are not modelled, so
  \<^verbatim>\<open>mkdir(parents=True, exist_ok=True)\<close> has no effect here.  The console is the list of
  messages printed so far.
\<close>

datatype msg =
    Warning_volumes nat nat        \<comment> \<open>\<^verbatim>\<open>Warning: Expected {expected_volumes} volumes, got {n_volumes}\<close>\<close>
  | Converted string string        \<comment> \<open>\<^verbatim>\<open>Converted: {input name} -> {output name}\<close>\<close>
  | Counts nat nat                 \<comment> \<open>the vertices/volumes or vertices/faces line\<close>
  | Range_line                     \<comment> \<open>the \<^verbatim>\<open>Range: [...], NaN count: ...\<close> line; its numbers are not modelled\<close>
  | Generated string               \<comment> \<open>\<^verbatim>\<open>Generated: {output name}\<close>\<close>

record world =
  files :: "string \<rightharpoonup> byte list"
  stdout :: "msg list"

definition print :: "msg \<Rightarrow> world \<Rightarrow> world" where
  "print m w = w\<lparr>stdout := stdout w @ [m]\<rparr>"

section \<open>Statistics path: \<^verbatim>\<open>convert_dat_to_brs1\<close>\<close>

definition N_VERTICES :: nat where
  "N_VERTICES = 10242"

text \<open>\<^verbatim>\<open>raw_data.reshape((n_volumes, n_vertices))\<close>: row \<open>v\<close> is the \<open>v\<close>-th block of \<open>n_vertices\<close> samples.\<close>

definition reshape :: "nat \<Rightarrow> nat \<Rightarrow> 'a list \<Rightarrow> 'a list list" where
  "reshape n_volumes n_vertices xs =
     map (\<lambda>v. take n_vertices (drop (v * n_vertices) xs)) [0..<n_volumes]"

text \<open>The per-volume loop body (source lines 252--257).\<close>

definition volume_range :: "f32 list \<Rightarrow> f32 \<times> f32" where
  "volume_range vol_data =
     (let vol_valid = filter (\<lambda>x. \<not> isnan x) vol_data
      in if length vol_valid > 0 then (np_min vol_valid, np_max vol_valid) else (0, 0))"

text \<open>
  The buffer built by \<^verbatim>\<open>convert_dat_to_brs1\<close> from the array read from the input file
  (source lines 228--277), or the exception raised on the way.
\<close>

definition build_brs1 :: "f32 list \<Rightarrow> error + byte list" where
  "build_brs1 raw_data =
     (let n_values = length raw_data;
          n_vertices = N_VERTICES;
          n_volumes = n_values div n_vertices
      in if n_values \<noteq> n_vertices * n_volumes
         then Inl (SizeMismatch n_values n_vertices n_volumes)
         else
           let data = reshape n_volumes n_vertices raw_data;
               nan_mask = map (map isnan) data;
               nan_count = length (filter id (concat nan_mask));
               valid_data = (if nan_count > 0 then filter (\<lambda>x. \<not> isnan x) (concat data)
                             else concat data);
               global_min = (if length valid_data > 0 then np_min valid_data else 0);
               global_max = (if length valid_data > 0 then np_max valid_data else 0);
               volume_ranges = map (\<lambda>v. volume_range (data ! v)) [0..<n_volumes]
           in bind_err (pack_u32 1) (\<lambda>version.
              bind_err (pack_u32 0) (\<lambda>flags.
              bind_err (pack_u32 n_vertices) (\<lambda>nv.
              bind_err (pack_u32 n_volumes) (\<lambda>nvol.
              bind_err (pack_u32 nan_count) (\<lambda>nc.
                Inr (map (of_nat \<circ> of_char) ''BRS1'' @ version @ flags @ nv @ nvol
                     @ pack_f32 global_min @ pack_f32 global_max @ nc
                     @ concat (map (\<lambda>(vmin, vmax). pack_f32 vmin @ pack_f32 vmax) volume_ranges)
                     @ tobytes raw_data)))))))"

text \<open>
  \<^verbatim>\<open>convert_dat_to_brs1(dat_path, output_path, expected_volumes)\<close>.  The compressor
  \<^verbatim>\<open>gzip\<close> is a parameter.  The result is the exception raised, if any, and the world
  the call leaves behind.
\<close>

definition convert_dat_to_brs1 ::
  "(byte list \<Rightarrow> byte list) \<Rightarrow> string \<Rightarrow> string \<Rightarrow> nat \<Rightarrow> world \<Rightarrow> (error + unit) \<times> world" where
  "convert_dat_to_brs1 gzip dat_path output_path expected_volumes w =
     (case files w dat_path of
        None \<Rightarrow> (Inl (FileNotFoundError dat_path), w)
      | Some contents \<Rightarrow>
          let raw_data = np_fromfile contents;
              n_values = length raw_data;
              n_vertices = N_VERTICES;
              n_volumes = n_values div n_vertices;
              w1 = (if n_volumes \<noteq> expected_volumes
                    then print (Warning_volumes expected_volumes n_volumes) w else w)
          in (case build_brs1 raw_data of
                Inl e \<Rightarrow> (Inl e, w1)
              | Inr buf \<Rightarrow>
                  let w2 = w1\<lparr>files := (files w1)(output_path \<mapsto> gzip buf)\<rparr>;
                      w3 = print (Converted dat_path output_path) w2;
                      w4 = print (Counts n_vertices n_volumes) w3;
                      w5 = print Range_line w4
                  in (Inr (), w5)))"

section \<open>Surface reader: \<^verbatim>\<open>read_freesurfer_surface\<close>\<close>

type_synonym 'a vec3 = "'a \<times> 'a \<times> 'a"

type_synonym face = "u32 \<times> u32 \<times> u32"

definition endswith :: "'a list \<Rightarrow> 'a list \<Rightarrow> bool" where
  "endswith xs s \<longleftrightarrow> length s \<le> length xs \<and> drop (length xs - length s) xs = s"

text \<open>
  The comment loop (source lines 128--135): one byte at a time is appended to
  \<^verbatim>\<open>comment\<close> until it ends with two newlines.  The result is the stream after the
  comment; the comment itself is not returned.
\<close>

fun read_comment :: "byte list \<Rightarrow> byte list \<Rightarrow> error + byte list" where
  "read_comment comment [] = Inl UnexpectedEOF"
| "read_comment comment (char # f) =
     (let comment' = comment @ [char]
      in if endswith comment' [0x0A, 0x0A] then Inr f else read_comment comment' f)"

text \<open>
  The two array loops (source lines 143--147 and 151--155): \<open>n\<close> rows of three fields,
  each read by \<open>unpack\<close> (floats for the vertices, integers for the faces).
\<close>

fun read_triples ::
  "(byte list \<Rightarrow> error + (u32 \<times> byte list)) \<Rightarrow> nat \<Rightarrow> byte list
     \<Rightarrow> error + (u32 vec3 list \<times> byte list)" where
  "read_triples unpack 0 f = Inr ([], f)"
| "read_triples unpack (Suc n) f =
     (case unpack f of Inl e \<Rightarrow> Inl e | Inr (x, f1) \<Rightarrow>
      case unpack f1 of Inl e \<Rightarrow> Inl e | Inr (y, f2) \<Rightarrow>
      case unpack f2 of Inl e \<Rightarrow> Inl e | Inr (z, f3) \<Rightarrow>
      case read_triples unpack n f3 of Inl e \<Rightarrow> Inl e
      | Inr (rows, f4) \<Rightarrow> Inr ((x, y, z) # rows, f4))"

text \<open>What follows the comment (source lines 137--157): the two counts, the vertices, the faces.\<close>

definition read_body :: "byte list \<Rightarrow> error + (f32 vec3 list \<times> face list)" where
  "read_body f =
     bind_err (unpack_be f) (\<lambda>(n_vertices, f).
     bind_err (unpack_be f) (\<lambda>(n_faces, f).
     bind_err (read_triples unpack_f32_be (unat n_vertices) f) (\<lambda>(vertices, f).
     bind_err (read_triples unpack_be (unat n_faces) f) (\<lambda>(faces, f).
       Inr (vertices, faces)))))"

definition read_freesurfer_surface :: "byte list \<Rightarrow> error + (f32 vec3 list \<times> face list)" where
  "read_freesurfer_surface contents =
     (let magic = take 3 contents; f = drop 3 contents
      in if magic \<noteq> [0xFF, 0xFF, 0xFE] then Inl (InvalidMagic magic)
         else bind_err (read_comment [] f) read_body)"

section \<open>Normal estimator: \<^verbatim>\<open>compute_vertex_normals\<close>\<close>

text \<open>
  The float32 operations of numpy are a parameter: the estimator is written over any
  number type with the operations it uses.  \<open>gt_eps x\<close> is \<^verbatim>\<open>x > 1e-10\<close> and \<open>lt_eps x\<close> is
  \<^verbatim>\<open>x < 1e-10\<close>.
\<close>

record 'a fp_ops =
  fadd :: "'a \<Rightarrow> 'a \<Rightarrow> 'a"
  fsub :: "'a \<Rightarrow> 'a \<Rightarrow> 'a"
  fmul :: "'a \<Rightarrow> 'a \<Rightarrow> 'a"
  fdiv :: "'a \<Rightarrow> 'a \<Rightarrow> 'a"
  fsqrt :: "'a \<Rightarrow> 'a"
  fzero :: 'a
  fone :: 'a
  gt_eps :: "'a \<Rightarrow> bool"
  lt_eps :: "'a \<Rightarrow> bool"

definition vadd :: "'a fp_ops \<Rightarrow> 'a vec3 \<Rightarrow> 'a vec3 \<Rightarrow> 'a vec3" where
  "vadd ops u v = (case (u, v) of ((a0, a1, a2), (b0, b1, b2)) \<Rightarrow>
     (fadd ops a0 b0, fadd ops a1 b1, fadd ops a2 b2))"

definition vsub :: "'a fp_ops \<Rightarrow> 'a vec3 \<Rightarrow> 'a vec3 \<Rightarrow> 'a vec3" where
  "vsub ops u v = (case (u, v) of ((a0, a1, a2), (b0, b1, b2)) \<Rightarrow>
     (fsub ops a0 b0, fsub ops a1 b1, fsub ops a2 b2))"

definition vdiv :: "'a fp_ops \<Rightarrow> 'a vec3 \<Rightarrow> 'a \<Rightarrow> 'a vec3" where
  "vdiv ops u s = (case u of (a0, a1, a2) \<Rightarrow> (fdiv ops a0 s, fdiv ops a1 s, fdiv ops a2 s))"

text \<open>\<^verbatim>\<open>np.cross\<close> of two 3-vectors and \<^verbatim>\<open>np.linalg.norm\<close> of one.\<close>

definition cross :: "'a fp_ops \<Rightarrow> 'a vec3 \<Rightarrow> 'a vec3 \<Rightarrow> 'a vec3" where
  "cross ops u v = (case (u, v) of ((a0, a1, a2), (b0, b1, b2)) \<Rightarrow>
     (fsub ops (fmul ops a1 b2) (fmul ops a2 b1),
      fsub ops (fmul ops a2 b0) (fmul ops a0 b2),
      fsub ops (fmul ops a0 b1) (fmul ops a1 b0)))"

definition linalg_norm :: "'a fp_ops \<Rightarrow> 'a vec3 \<Rightarrow> 'a" where
  "linalg_norm ops u = (case u of (a0, a1, a2) \<Rightarrow>
     fsqrt ops (fadd ops (fadd ops (fmul ops a0 a0) (fmul ops a1 a1)) (fmul ops a2 a2)))"

text \<open>The vector a face adds to its vertices (source lines 166--171).\<close>

definition face_normal :: "'a fp_ops \<Rightarrow> 'a vec3 \<Rightarrow> 'a vec3 \<Rightarrow> 'a vec3 \<Rightarrow> 'a vec3" where
  "face_normal ops v0 v1 v2 =
     (let edge1 = vsub ops v1 v0;
          edge2 = vsub ops v2 v0;
          face_normal = cross ops edge1 edge2;
          norm = linalg_norm ops face_normal
      in if gt_eps ops norm then vdiv ops face_normal norm else face_normal)"

text \<open>
  One iteration of the face loop (source lines 165--175).  Indexing a numpy array with a
  \<^verbatim>\<open>uint32\<close> at or beyond its length raises \<^verbatim>\<open>IndexError\<close>; \<open>normals\<close> has the length of
  \<open>vertices\<close>.
\<close>

definition add_face :: "'a fp_ops \<Rightarrow> 'a vec3 list \<Rightarrow> 'a vec3 list \<Rightarrow> face \<Rightarrow> error + 'a vec3 list" where
  "add_face ops vertices normals face =
     (case face of (f0, f1, f2) \<Rightarrow>
        if unat f0 < length vertices \<and> unat f1 < length vertices \<and> unat f2 < length vertices
        then
          let v0 = vertices ! unat f0; v1 = vertices ! unat f1; v2 = vertices ! unat f2;
              face_normal = face_normal ops v0 v1 v2;
              normals = normals[unat f0 := vadd ops (normals ! unat f0) face_normal];
              normals = normals[unat f1 := vadd ops (normals ! unat f1) face_normal];
              normals = normals[unat f2 := vadd ops (normals ! unat f2) face_normal]
          in Inr normals
        else Inl IndexError)"

fun accumulate :: "'a fp_ops \<Rightarrow> 'a vec3 list \<Rightarrow> 'a vec3 list \<Rightarrow> face list \<Rightarrow> error + 'a vec3 list" where
  "accumulate ops vertices normals [] = Inr normals"
| "accumulate ops vertices normals (face # faces) =
     (case add_face ops vertices normals face of
        Inl e \<Rightarrow> Inl e
      | Inr normals' \<Rightarrow> accumulate ops vertices normals' faces)"

definition compute_vertex_normals :: "'a fp_ops \<Rightarrow> 'a vec3 list \<Rightarrow> face list \<Rightarrow> error + 'a vec3 list" where
  "compute_vertex_normals ops vertices faces =
     (let normals = replicate (length vertices) (fzero ops, fzero ops, fzero ops)
      in bind_err (accumulate ops vertices normals faces) (\<lambda>normals.
           let norms = map (linalg_norm ops) normals;
               norms = map (\<lambda>n. if lt_eps ops n then fone ops else n) norms
           in Inr (map2 (vdiv ops) normals norms)))"

text \<open>
  One arithmetic, for the examples: exact reals, with the threshold 1e-10 as a real.  It is
  not the float32 arithmetic of numpy (it does not round, overflow or produce NaN); the
  examples use it at inputs on which float32 computes the same values, all of them exactly
  representable.  The statements about the estimator are for every arithmetic.
\<close>

definition exact_ops :: "real fp_ops" where
  "exact_ops = \<lparr>fadd = (+), fsub = (-), fmul = (*), fdiv = (/), fsqrt = sqrt,
                 fzero = 0, fone = 1,
                 gt_eps = (\<lambda>x. x > 1 / 10 ^ 10), lt_eps = (\<lambda>x. x < 1 / 10 ^ 10)\<rparr>"

section \<open>Geometry path: \<^verbatim>\<open>convert_pial_to_brg1\<close>\<close>

text \<open>The buffer built from the arrays (source lines 190--213).\<close>

definition build_brg1 :: "f32 vec3 list \<Rightarrow> f32 vec3 list \<Rightarrow> face list \<Rightarrow> error + byte list" where
  "build_brg1 vertices normals faces =
     (let n_vertices = length vertices;
          n_faces = length faces
      in bind_err (pack_u32 1) (\<lambda>version.
         bind_err (pack_u32 0) (\<lambda>flags.
         bind_err (pack_u32 n_vertices) (\<lambda>nv.
         bind_err (pack_u32 n_faces) (\<lambda>nf.
           Inr (map (of_nat \<circ> of_char) ''BRG1'' @ version @ flags @ nv @ nf
                @ concat (map (\<lambda>(x, y, z). pack_f32 x @ pack_f32 y @ pack_f32 z) vertices)
                @ concat (map (\<lambda>(x, y, z). pack_f32 x @ pack_f32 y @ pack_f32 z) normals)
                @ concat (map (\<lambda>(a, b, c). le_bytes a @ le_bytes b @ le_bytes c) faces)))))))"

definition convert_pial_to_brg1 ::
  "f32 fp_ops \<Rightarrow> (byte list \<Rightarrow> byte list) \<Rightarrow> string \<Rightarrow> string \<Rightarrow> world \<Rightarrow> (error + unit) \<times> world" where
  "convert_pial_to_brg1 ops gzip pial_path output_path w =
     (case files w pial_path of
        None \<Rightarrow> (Inl (FileNotFoundError pial_path), w)
      | Some contents \<Rightarrow>
          (case read_freesurfer_surface contents of
             Inl e \<Rightarrow> (Inl e, w)
           | Inr (vertices, faces) \<Rightarrow>
               (case compute_vertex_normals ops vertices faces of
                  Inl e \<Rightarrow> (Inl e, w)
                | Inr normals \<Rightarrow>
                    (case build_brg1 vertices normals faces of
                       Inl e \<Rightarrow> (Inl e, w)
                     | Inr buf \<Rightarrow>
                         let w1 = w\<lparr>files := (files w)(output_path \<mapsto> gzip buf)\<rparr>;
                             w2 = print (Converted pial_path output_path) w1;
                             w3 = print (Counts (length vertices) (length faces)) w2
                         in (Inr (), w3)))))"

section \<open>Metadata emitter: \<^verbatim>\<open>generate_metadata_json\<close>\<close>

datatype json =
    JNull
  | JBool bool
  | JInt int
  | JFloat real
  | JString string
  | JArray "json list"
  | JObject "(string \<times> json) list"

record stat_meta =
  display_name :: string
  description :: string
  colormap :: string
  symmetric :: bool
  suggested_threshold :: "real option"
  labels :: "string list"

text \<open>\<^verbatim>\<open>str(i)\<close> of a non-negative integer, for the f-strings of the label table.\<close>

fun str :: "nat \<Rightarrow> string" where
  "str n = (if n < 10 then [char_of (48 + n)] else str (n div 10) @ [char_of (48 + n mod 10)])"

declare str.simps [simp del]

definition STATISTICS :: "string \<rightharpoonup> nat" where
  "STATISTICS = map_of [(''conT'', 5), (''conTlp'', 5), (''beta'', 23), (''sigma2'', 1)]"

definition CONTRAST_LABELS :: "string list" where
  "CONTRAST_LABELS =
     [''Intercept'', ''Sex'', ''CrossSectionalAge'', ''LongitudinalTime'', ''NIHScore'']"

definition BETA_LABELS :: "string list" where
  "BETA_LABELS =
     [''Intercept'', ''Sex'', ''CrossSectionalAge'', ''LongitudinalTime'', ''NIHScore'']
     @ map (\<lambda>i. ''Covariate_'' @ str i) [6..<24]"

definition STAT_META :: "string \<rightharpoonup> stat_meta" where
  "STAT_META = map_of
     [(''conT'',
        \<lparr>display_name = ''T-Statistics'',
         description = ''T-statistics for testing whether contrasts differ from zero'',
         colormap = ''coolwarm'', symmetric = True, suggested_threshold = Some 2.0,
         labels = CONTRAST_LABELS\<rparr>),
      (''conTlp'',
        \<lparr>display_name = ''-log10(p-values)'',
         description = ''Negative log10 of p-values (values > 1.3 correspond to p < 0.05)'',
         colormap = ''plasma'', symmetric = False, suggested_threshold = Some 1.3,
         labels = CONTRAST_LABELS\<rparr>),
      (''beta'',
        \<lparr>display_name = ''Beta Coefficients'',
         description = ''Raw fixed effect coefficient estimates'',
         colormap = ''coolwarm'', symmetric = True, suggested_threshold = None,
         labels = BETA_LABELS\<rparr>),
      (''sigma2'',
        \<lparr>display_name = ''Residual Variance'',
         description = ''Residual variance at each vertex'',
         colormap = ''viridis'', symmetric = False, suggested_threshold = None,
         labels = [''Residual Variance'']\<rparr>)]"

text \<open>
  \<^verbatim>\<open>str.upper()\<close> for ASCII text: the letters a--z are mapped to A--Z and every other byte
  is kept.  What Python does to letters outside ASCII is not modelled.
\<close>

definition upper :: "string \<Rightarrow> string" where
  "upper s = map (\<lambda>c. if 97 \<le> (of_char c :: nat) \<and> (of_char c :: nat) \<le> 122
                        then char_of (of_char c - 32 :: nat) else c) s"

text \<open>The dictionary \<^verbatim>\<open>metadata\<close> (source lines 94--110), keys in insertion order.\<close>

definition build_metadata :: "stat_meta \<Rightarrow> string \<Rightarrow> string \<Rightarrow> string \<Rightarrow> (string \<times> json) list" where
  "build_metadata meta hemi analysis stat =
     (let hemisphere_full = (if hemi = ''lh'' then ''left'' else ''right'')
      in [(''name'', JString (hemi @ ''_'' @ analysis @ ''_'' @ stat)),
          (''display_name'', JString (display_name meta @ '' ('' @ upper analysis @ '')'')),
          (''description'', JString (description meta)),
          (''hemisphere'', JString hemisphere_full),
          (''analysis'', JString analysis),
          (''colormap'', JString (colormap meta)),
          (''symmetric'', JBool (symmetric meta)),
          (''suggested_threshold'',
             (case suggested_threshold meta of None \<Rightarrow> JNull | Some t \<Rightarrow> JFloat t)),
          (''nan_handling'', JString ''transparent''),
          (''volumes'',
             JArray (map (\<lambda>(i, label). JObject [(''index'', JInt (int i)), (''label'', JString label)])
                       (enumerate 0 (labels meta))))])"

text \<open>
  \<^verbatim>\<open>generate_metadata_json(hemi, analysis, stat, output_path)\<close>.  The module-level table
  \<^verbatim>\<open>STAT_META\<close> that the function reads is its argument \<open>stat_meta\<close>, and the serialiser
  \<^verbatim>\<open>json.dump(..., indent=2)\<close> is the parameter \<open>json_dump\<close>.  A missing key raises
  \<^verbatim>\<open>KeyError\<close> at the first statement.
\<close>

definition generate_metadata_json ::
  "(json \<Rightarrow> byte list) \<Rightarrow> (string \<rightharpoonup> stat_meta) \<Rightarrow> string \<Rightarrow> string \<Rightarrow> string \<Rightarrow> string \<Rightarrow> world
     \<Rightarrow> (error + unit) \<times> world" where
  "generate_metadata_json json_dump stat_meta hemi analysis stat output_path w =
     (case stat_meta stat of
        None \<Rightarrow> (Inl (KeyError stat), w)
      | Some meta \<Rightarrow>
          let metadata = JObject (build_metadata meta hemi analysis stat);
              w1 = w\<lparr>files := (files w)(output_path \<mapsto> json_dump metadata)\<rparr>
          in (Inr (), print (Generated output_path) w1))"

section \<open>The containers and invariants of the specification\<close>

text \<open>
  The readers below follow the layout tables of the specification (sections 4.3 and 4.4):
  they are the reverse of the layout, written independently of the encoders.
\<close>

fun read_u32 :: "byte list \<Rightarrow> (u32 \<times> byte list) option" where
  "read_u32 (b0 # b1 # b2 # b3 # rest) = Some (le_word b0 b1 b2 b3, rest)"
| "read_u32 _ = None"

fun read_u32s :: "nat \<Rightarrow> byte list \<Rightarrow> (u32 list \<times> byte list) option" where
  "read_u32s 0 bs = Some ([], bs)"
| "read_u32s (Suc n) bs =
     (case read_u32 bs of
        None \<Rightarrow> None
      | Some (w, rest) \<Rightarrow> map_option (\<lambda>(ws, rest'). (w # ws, rest')) (read_u32s n rest))"

fun pairs :: "'a list \<Rightarrow> ('a \<times> 'a) list" where
  "pairs (a # b # xs) = (a, b) # pairs xs"
| "pairs _ = []"

fun triples :: "'a list \<Rightarrow> ('a \<times> 'a \<times> 'a) list" where
  "triples (a # b # c # xs) = (a, b, c) # triples xs"
| "triples _ = []"

record stat_container =
  sc_n_vertices :: nat
  sc_n_volumes :: nat
  sc_global_min :: f32
  sc_global_max :: f32
  sc_nan_count :: nat
  sc_volume_ranges :: "(f32 \<times> f32) list"
  sc_data :: "f32 list"

definition decode_stat_container :: "byte list \<Rightarrow> stat_container option" where
  "decode_stat_container bs =
     (if take 4 bs \<noteq> map (of_nat \<circ> of_char) ''BRS1'' then None
      else
        Option.bind (read_u32 (drop 4 bs)) (\<lambda>(version, r).
        Option.bind (read_u32 r) (\<lambda>(flags, r).
        Option.bind (read_u32 r) (\<lambda>(nv, r).
        Option.bind (read_u32 r) (\<lambda>(nvol, r).
        Option.bind (read_u32 r) (\<lambda>(gmin, r).
        Option.bind (read_u32 r) (\<lambda>(gmax, r).
        Option.bind (read_u32 r) (\<lambda>(nc, r).
        Option.bind (read_u32s (2 * unat nvol) r) (\<lambda>(rs, r).
        Option.bind (read_u32s (unat nvol * unat nv) r) (\<lambda>(ds, r).
          if version = 1 \<and> flags = 0 \<and> r = []
          then Some \<lparr>sc_n_vertices = unat nv, sc_n_volumes = unat nvol,
                      sc_global_min = gmin, sc_global_max = gmax, sc_nan_count = unat nc,
                      sc_volume_ranges = pairs rs, sc_data = ds\<rparr>
          else None))))))))))"

record geom_container =
  gc_n_vertices :: nat
  gc_n_faces :: nat
  gc_vertices :: "f32 vec3 list"
  gc_normals :: "f32 vec3 list"
  gc_faces :: "face list"

definition decode_geom_container :: "byte list \<Rightarrow> geom_container option" where
  "decode_geom_container bs =
     (if take 4 bs \<noteq> map (of_nat \<circ> of_char) ''BRG1'' then None
      else
        Option.bind (read_u32 (drop 4 bs)) (\<lambda>(version, r).
        Option.bind (read_u32 r) (\<lambda>(flags, r).
        Option.bind (read_u32 r) (\<lambda>(nv, r).
        Option.bind (read_u32 r) (\<lambda>(nf, r).
        Option.bind (read_u32s (3 * unat nv) r) (\<lambda>(vs, r).
        Option.bind (read_u32s (3 * unat nv) r) (\<lambda>(ns, r).
        Option.bind (read_u32s (3 * unat nf) r) (\<lambda>(fs, r).
          if version = 1 \<and> flags = 0 \<and> r = []
          then Some \<lparr>gc_n_vertices = unat nv, gc_n_faces = unat nf,
                      gc_vertices = triples vs, gc_normals = triples ns, gc_faces = triples fs\<rparr>
          else None))))))))"

text \<open>
  The statistics of the specification: block \<open>v\<close> of a flat sample array, and what it means
  for a pair to be the range of the non-NaN samples of a list (section 3, RangeStatistic).
\<close>

definition volume_block :: "nat \<Rightarrow> f32 list \<Rightarrow> f32 list" where
  "volume_block v samples = take N_VERTICES (drop (v * N_VERTICES) samples)"

definition is_range_of :: "f32 list \<Rightarrow> f32 \<times> f32 \<Rightarrow> bool" where
  "is_range_of samples r =
     (let valid = filter (\<lambda>x. \<not> isnan x) samples
      in if valid = [] then r = (0, 0)
         else fst r \<in> set valid \<and> snd r \<in> set valid \<and>
              list_all (\<lambda>x. f32_key (fst r) \<le> f32_key x \<and> f32_key x \<le> f32_key (snd r)) valid)"

text \<open>A vertex or normal none of whose coordinates is a signalling NaN, and \<open>quiet\<close> on rows.\<close>

definition no_snan3 :: "f32 vec3 \<Rightarrow> bool" where
  "no_snan3 v = (case v of (x, y, z) \<Rightarrow> \<not> is_snan x \<and> \<not> is_snan y \<and> \<not> is_snan z)"

text \<open>The face-index invariant of a Surface: every index of every face is below the vertex count.\<close>

definition faces_in_range :: "nat \<Rightarrow> face list \<Rightarrow> bool" where
  "faces_in_range n faces = list_all (\<lambda>(f0, f1, f2). unat f0 < n \<and> unat f1 < n \<and> unat f2 < n) faces"

text \<open>
  The comment region of the specification: a stream has a terminator when two consecutive
  bytes of it are newlines; a comment region is a byte string that ends with the first
  terminator in it.
\<close>

fun has_terminator :: "byte list \<Rightarrow> bool" where
  "has_terminator (a # b # rest) = ((a = 0x0A \<and> b = 0x0A) \<or> has_terminator (b # rest))"
| "has_terminator _ = False"

definition comment_region :: "byte list \<Rightarrow> bool" where
  "comment_region c \<longleftrightarrow> endswith c [0x0A, 0x0A] \<and> \<not> has_terminator (butlast c)"

section \<open>Auxiliary definitions\<close>

text \<open>
  Flat views of the pair and triple sections, \<open>quiet\<close> on rows, the two layouts with their
  fields as values, and the last byte of the comment read so far.
\<close>

text \<open>The volume ranges as a flat list of words.\<close>

fun flat_pairs :: "('a \<times> 'a) list \<Rightarrow> 'a list" where
  "flat_pairs [] = []"
| "flat_pairs ((a, b) # ps) = a # b # flat_pairs ps"

fun flat_triples :: "('a \<times> 'a \<times> 'a) list \<Rightarrow> 'a list" where
  "flat_triples [] = []"
| "flat_triples ((a, b, c) # ts) = a # b # c # flat_triples ts"

definition quiet3 :: "f32 vec3 \<Rightarrow> f32 vec3" where
  "quiet3 v = (case v of (x, y, z) \<Rightarrow> (quiet x, quiet y, quiet z))"

text \<open>The buffer layout, with the fields as values.\<close>

definition brs1_layout ::
  "nat \<Rightarrow> f32 \<Rightarrow> f32 \<Rightarrow> nat \<Rightarrow> (f32 \<times> f32) list \<Rightarrow> f32 list \<Rightarrow> byte list" where
  "brs1_layout k gmin gmax nc ranges samples =
     map (of_nat \<circ> of_char) ''BRS1'' @ le_bytes 1 @ le_bytes 0 @ le_bytes (of_nat N_VERTICES)
     @ le_bytes (of_nat k) @ le_bytes gmin @ le_bytes gmax @ le_bytes (of_nat nc)
     @ concat (map le_bytes (flat_pairs ranges)) @ concat (map le_bytes samples)"

definition brg1_layout :: "f32 vec3 list \<Rightarrow> f32 vec3 list \<Rightarrow> face list \<Rightarrow> byte list" where
  "brg1_layout vertices normals faces =
     map (of_nat \<circ> of_char) ''BRG1'' @ le_bytes 1 @ le_bytes 0
     @ le_bytes (of_nat (length vertices)) @ le_bytes (of_nat (length faces))
     @ concat (map le_bytes (flat_triples vertices))
     @ concat (map le_bytes (flat_triples normals))
     @ concat (map le_bytes (flat_triples faces))"

definition prev :: "byte list \<Rightarrow> byte list" where
  "prev comment = (if comment = [] then [] else [last comment])"

subsection \<open>Example inputs\<close>

text \<open>Two volumes: one of 1.0 everywhere, one of NaN everywhere.\<close>

definition two_volumes :: "f32 list" where
  "two_volumes = replicate N_VERTICES 0x3F800000 @ replicate N_VERTICES 0x7FC00000"

text \<open>An input of one sample is rejected and nothing is written; an empty input is converted.\<close>

definition one_sample_world :: world where
  "one_sample_world = \<lparr>files = [''in.dat'' \<mapsto> [0, 0, 128, 63]], stdout = []\<rparr>"

definition empty_input_world :: world where
  "empty_input_world = \<lparr>files = [''in.dat'' \<mapsto> []], stdout = []\<rparr>"

text \<open>
  The four corners (0,0,0), (1,0,0), (0,1,0), (0,0,1) with faces (0,1,2) and (0,1,3); the
  normal (0,0,1) at three vertices and a quiet NaN in the normal of the last.
\<close>

definition corner_vertices :: "f32 vec3 list" where
  "corner_vertices = [(0, 0, 0), (0x3F800000, 0, 0), (0, 0x3F800000, 0), (0, 0, 0x3F800000)]"

definition corner_faces :: "face list" where
  "corner_faces = [(0, 1, 2), (0, 1, 3)]"

definition corner_normals :: "f32 vec3 list" where
  "corner_normals = [(0, 0, 0x3F800000), (0, 0, 0x3F800000), (0, 0, 0x3F800000),
                     (0x7FC00000, 0, 0)]"

text \<open>The triangle (0,0,0), (1,0,0), (0,1,0) in exact coordinates.\<close>

definition triangle :: "real vec3 list" where
  "triangle = [(0, 0, 0), (1, 0, 0), (0, 1, 0)]"

text \<open>A triangle with two edges of length 2^-20 at the origin, in exact coordinates.\<close>

definition tiny_triangle :: "real vec3 list" where
  "tiny_triangle = [(0, 0, 0), (1 / 2 ^ 20, 0, 0), (0, 1 / 2 ^ 20, 0)]"

text \<open>
  Streams for the cases: three wrong bytes; the magic and the text \<open>ab\<close> with one newline;
  the magic, the comment \<open>created by test\<close> with its two newlines, and an empty surface.
\<close>

definition test_comment :: "byte list" where
  "test_comment = map (of_nat \<circ> of_char) ''created by test'' @ [0x0A, 0x0A]"

definition truncated_world :: world where
  "truncated_world = \<lparr>files = [''lh.pial'' \<mapsto> [0xFF, 0xFF, 0xFE, 0x61, 0x62, 0x0A]], stdout = []\<rparr>"

text \<open>A table whose entry for \<open>conT\<close> has one label, against the five volumes expected for it.\<close>

definition short_labels_table :: "string \<rightharpoonup> stat_meta" where
  "short_labels_table = map_of
     [(''conT'',
        \<lparr>display_name = ''T-Statistics'',
         description = ''T-statistics for testing whether contrasts differ from zero'',
         colormap = ''coolwarm'', symmetric = True, suggested_threshold = Some 2.0,
         labels = [''Intercept'']\<rparr>)]"

text \<open>A serialiser that writes no bytes, and a world with no files, for the example.\<close>

definition blank_dump :: "json \<Rightarrow> byte list" where
  "blank_dump j = []"

definition empty_world :: world where
  "empty_world = \<lparr>files = Map.empty, stdout = []\<rparr>"

section \<open>Properties of the byte encodings\<close>

lemma le_word_le_bytes:
  "le_word (ucast w) (ucast (drop_bit 8 w)) (ucast (drop_bit 16 w)) (ucast (drop_bit 24 w)) = w"
  unfolding le_word_def
proof (rule bit_word_eqI)
  fix n :: nat
  assume "n < LENGTH(32)"
  then have n: "n < 32" by simp
  consider "n < 8" | "8 \<le> n" "n < 16" | "16 \<le> n" "n < 24" | "24 \<le> n" by linarith
  then show "bit (ucast (ucast w :: byte) OR push_bit 8 (ucast (ucast (drop_bit 8 w) :: byte)) OR
       push_bit 16 (ucast (ucast (drop_bit 16 w) :: byte)) OR
       push_bit 24 (ucast (ucast (drop_bit 24 w) :: byte)) :: u32) n = bit w n"
    using n by cases (auto simp add: bit_simps)
qed

lemma length_le_bytes [simp]: "length (le_bytes w) = 4"
  by (simp add: le_bytes_def)

lemma read_u32_le_bytes [simp]: "read_u32 (le_bytes w @ rest) = Some (w, rest)"
  by (simp add: le_bytes_def le_word_le_bytes)

lemma read_u32s_le_bytes [simp]:
  "read_u32s (length ws) (concat (map le_bytes ws) @ rest) = Some (ws, rest)"
  by (induction ws) simp_all

lemma read_u32s_le_bytes_n:
  "n = length ws \<Longrightarrow> read_u32s n (concat (map le_bytes ws) @ rest) = Some (ws, rest)"
  by simp

lemma np_fromfile_tobytes: "np_fromfile (tobytes xs) = xs"
  by (induction xs) (simp_all add: tobytes_def le_bytes_def le_word_le_bytes)

lemma length_tobytes: "length (tobytes xs) = 4 * length xs"
  by (induction xs) (simp_all add: tobytes_def)

lemma pairs_flat_pairs [simp]: "pairs (flat_pairs ps) = ps"
  by (induction ps rule: flat_pairs.induct) simp_all

lemma length_flat_pairs [simp]: "length (flat_pairs ps) = 2 * length ps"
  by (induction ps rule: flat_pairs.induct) simp_all

lemma unat_of_nat_u32: "n < 2 ^ 32 \<Longrightarrow> unat (of_nat n :: u32) = n"
  by (simp add: unat_of_nat)

section \<open>Properties of the float32 patterns\<close>

lemma quiet_id: "\<not> isnan x \<Longrightarrow> quiet x = x"
  by (simp add: quiet_def)

lemma isnan_zero: "\<not> isnan 0"
  by (simp add: isnan_def)

lemma pack_f32_not_nan: "\<not> isnan x \<Longrightarrow> pack_f32 x = le_bytes x"
  by (simp add: pack_f32_def quiet_id)

subsection \<open>Minimum and maximum\<close>

lemma foldl_min_mem: "foldl (\<lambda>m y. if f32_less m y then m else y) x xs \<in> set (x # xs)"
  by (induction xs arbitrary: x) auto

lemma foldl_max_mem: "foldl (\<lambda>m y. if f32_less y m then m else y) x xs \<in> set (x # xs)"
  by (induction xs arbitrary: x) auto

lemma foldl_min_le_start:
  "f32_key (foldl (\<lambda>m y. if f32_less m y then m else y) x xs) \<le> f32_key x"
proof (induction xs arbitrary: x)
  case Nil
  show ?case by simp
next
  case (Cons a xs)
  show ?case
    using Cons.IH [of a] Cons.IH [of x] by (auto simp: f32_less_def)
qed

lemma foldl_max_ge_start:
  "f32_key x \<le> f32_key (foldl (\<lambda>m y. if f32_less y m then m else y) x xs)"
proof (induction xs arbitrary: x)
  case Nil
  show ?case by simp
next
  case (Cons a xs)
  show ?case
    using Cons.IH [of a] Cons.IH [of x] by (auto simp: f32_less_def)
qed

lemma foldl_min_le:
  "y \<in> set (x # xs) \<Longrightarrow> f32_key (foldl (\<lambda>m y. if f32_less m y then m else y) x xs) \<le> f32_key y"
proof (induction xs arbitrary: x)
  case Nil
  then show ?case by simp
next
  case (Cons a xs)
  define m where "m = (if f32_less x a then x else a)"
  have step: "foldl (\<lambda>m y. if f32_less m y then m else y) x (a # xs)
      = foldl (\<lambda>m y. if f32_less m y then m else y) m xs"
    by (simp add: m_def)
  have m: "f32_key m \<le> f32_key x" "f32_key m \<le> f32_key a"
    by (simp_all add: m_def f32_less_def)
  have "y = x \<or> y = a \<or> y \<in> set xs"
    using Cons.prems by auto
  then show ?case
  proof (elim disjE)
    assume "y = x"
    then show ?thesis
      unfolding step using foldl_min_le_start [of m xs] m(1) by simp
  next
    assume "y = a"
    then show ?thesis
      unfolding step using foldl_min_le_start [of m xs] m(2) by simp
  next
    assume "y \<in> set xs"
    then show ?thesis
      unfolding step using Cons.IH [of m] by simp
  qed
qed

lemma foldl_max_ge:
  "y \<in> set (x # xs) \<Longrightarrow> f32_key y \<le> f32_key (foldl (\<lambda>m y. if f32_less y m then m else y) x xs)"
proof (induction xs arbitrary: x)
  case Nil
  then show ?case by simp
next
  case (Cons a xs)
  define m where "m = (if f32_less a x then x else a)"
  have step: "foldl (\<lambda>m y. if f32_less y m then m else y) x (a # xs)
      = foldl (\<lambda>m y. if f32_less y m then m else y) m xs"
    by (simp add: m_def)
  have m: "f32_key x \<le> f32_key m" "f32_key a \<le> f32_key m"
    by (simp_all add: m_def f32_less_def)
  have "y = x \<or> y = a \<or> y \<in> set xs"
    using Cons.prems by auto
  then show ?case
  proof (elim disjE)
    assume "y = x"
    then show ?thesis
      unfolding step using foldl_max_ge_start [of m xs] m(1) by simp
  next
    assume "y = a"
    then show ?thesis
      unfolding step using foldl_max_ge_start [of m xs] m(2) by simp
  next
    assume "y \<in> set xs"
    then show ?thesis
      unfolding step using Cons.IH [of m] by simp
  qed
qed

lemma np_min_max_range:
  assumes "xs \<noteq> []"
  shows "np_min xs \<in> set xs" and "np_max xs \<in> set xs"
    and "y \<in> set xs \<Longrightarrow> f32_key (np_min xs) \<le> f32_key y"
    and "y \<in> set xs \<Longrightarrow> f32_key y \<le> f32_key (np_max xs)"
proof -
  obtain x xs' where xs: "xs = x # xs'" using assms by (cases xs) auto
  show "np_min xs \<in> set xs" unfolding xs using foldl_min_mem [of x xs'] by simp
  show "np_max xs \<in> set xs" unfolding xs using foldl_max_mem [of x xs'] by simp
  show "f32_key (np_min xs) \<le> f32_key y" if "y \<in> set xs"
    using that foldl_min_le [of y x xs'] unfolding xs by simp
  show "f32_key y \<le> f32_key (np_max xs)" if "y \<in> set xs"
    using that foldl_max_ge [of y x xs'] unfolding xs by simp
qed

lemma is_range_of_min_max:
  "is_range_of samples
     (if filter (\<lambda>x. \<not> isnan x) samples = [] then 0 else np_min (filter (\<lambda>x. \<not> isnan x) samples),
      if filter (\<lambda>x. \<not> isnan x) samples = [] then 0 else np_max (filter (\<lambda>x. \<not> isnan x) samples))"
proof (cases "filter (\<lambda>x. \<not> isnan x) samples = []")
  case True
  then show ?thesis by (simp add: is_range_of_def)
next
  case False
  note r = np_min_max_range [OF False]
  have "list_all (\<lambda>x. f32_key (np_min (filter (\<lambda>x. \<not> isnan x) samples)) \<le> f32_key x
                     \<and> f32_key x \<le> f32_key (np_max (filter (\<lambda>x. \<not> isnan x) samples)))
          (filter (\<lambda>x. \<not> isnan x) samples)"
    unfolding list_all_iff using r(3,4) by blast
  then show ?thesis
    using False r(1,2) by (simp add: is_range_of_def Let_def)
qed

lemma is_range_of_volume_range: "is_range_of vol (volume_range vol)"
proof -
  have "volume_range vol =
     (if filter (\<lambda>x. \<not> isnan x) vol = [] then 0 else np_min (filter (\<lambda>x. \<not> isnan x) vol),
      if filter (\<lambda>x. \<not> isnan x) vol = [] then 0 else np_max (filter (\<lambda>x. \<not> isnan x) vol))"
    by (simp add: volume_range_def Let_def)
  then show ?thesis using is_range_of_min_max [of vol] by simp
qed

lemma is_range_of_not_nan: "is_range_of samples r \<Longrightarrow> \<not> isnan (fst r) \<and> \<not> isnan (snd r)"
  by (auto simp: is_range_of_def Let_def isnan_zero split: if_splits)

lemma length_filter_nan_bound: "length samples < 2 ^ 32 \<Longrightarrow> length (filter isnan samples) < 2 ^ 32"
  using length_filter_le [of isnan samples] by linarith

lemma volume_range_not_nan:
  "\<not> isnan (fst (volume_range vol)) \<and> \<not> isnan (snd (volume_range vol))"
  using is_range_of_not_nan [OF is_range_of_volume_range] .

lemma global_range_not_nan:
  "\<not> isnan (if filter (\<lambda>x. \<not> isnan x) samples = [] then 0
             else np_min (filter (\<lambda>x. \<not> isnan x) samples))"
  "\<not> isnan (if filter (\<lambda>x. \<not> isnan x) samples = [] then 0
             else np_max (filter (\<lambda>x. \<not> isnan x) samples))"
  using is_range_of_not_nan [OF is_range_of_min_max [of samples]] by simp_all

lemma concat_ranges:
  "list_all (\<lambda>r. \<not> isnan (fst r) \<and> \<not> isnan (snd r)) ps \<Longrightarrow>
     concat (map (\<lambda>(vmin, vmax). pack_f32 vmin @ pack_f32 vmax) ps)
       = concat (map le_bytes (flat_pairs ps))"
  by (induction ps rule: flat_pairs.induct) (simp_all add: pack_f32_not_nan)

section \<open>Properties of the statistics path\<close>

lemma concat_reshape: "concat (reshape k n xs) = take (k * n) xs"
proof (induction k)
  case 0
  show ?case by (simp add: reshape_def)
next
  case (Suc k)
  have "concat (reshape (Suc k) n xs) = concat (reshape k n xs) @ take n (drop (k * n) xs)"
    by (simp add: reshape_def)
  also have "\<dots> = take (k * n) xs @ take n (drop (k * n) xs)"
    by (simp add: Suc.IH)
  also have "\<dots> = take (k * n + n) xs"
    by (simp add: take_add)
  finally show ?case by (simp add: add.commute)
qed

lemma reshape_nth: "v < k \<Longrightarrow> reshape k n xs ! v = take n (drop (v * n) xs)"
  by (simp add: reshape_def)

lemma count_mask: "length (filter id (concat (map (map p) xss))) = length (filter p (concat xss))"
proof -
  have "concat (map (map p) xss) = map p (concat xss)"
    by (simp add: map_concat)
  then show ?thesis
    by (simp add: filter_map comp_def)
qed

lemma filter_not_nan_id:
  "length (filter isnan xs) = 0 \<Longrightarrow> filter (\<lambda>x. \<not> isnan x) xs = xs"
  by (induction xs) (simp_all split: if_splits)

lemma build_brs1_eq:
  "build_brs1 samples =
     (let k = length samples div N_VERTICES;
          nc = length (filter isnan samples);
          valid = filter (\<lambda>x. \<not> isnan x) samples
      in if length samples \<noteq> N_VERTICES * k
         then Inl (SizeMismatch (length samples) N_VERTICES k)
         else if 2 ^ 32 \<le> k \<or> 2 ^ 32 \<le> nc then Inl StructError
         else Inr (brs1_layout k (if valid = [] then 0 else np_min valid)
                     (if valid = [] then 0 else np_max valid) nc
                     (map (\<lambda>v. volume_range (volume_block v samples)) [0..<k]) samples))"
proof (cases "length samples = N_VERTICES * (length samples div N_VERTICES)")
  case False
  then show ?thesis by (simp add: build_brs1_def Let_def)
next
  case True
  define k where "k = length samples div N_VERTICES"
  have len: "length samples = N_VERTICES * k" using True by (simp add: k_def)
  have cat: "concat (reshape k N_VERTICES samples) = samples"
    by (simp add: concat_reshape len mult.commute)
  have nc: "length (filter id (concat (map (map isnan) (reshape k N_VERTICES samples))))
            = length (filter isnan samples)"
    by (simp add: count_mask cat)
  have valid: "(if length (filter isnan samples) > 0 then filter (\<lambda>x. \<not> isnan x) samples else samples)
            = filter (\<lambda>x. \<not> isnan x) samples"
    by (simp add: filter_not_nan_id)
  have ranges: "map (\<lambda>v. volume_range (reshape k N_VERTICES samples ! v)) [0..<k]
            = map (\<lambda>v. volume_range (volume_block v samples)) [0..<k]"
    by (rule map_cong) (simp_all add: reshape_nth volume_block_def)
  have nonempty: "(if length xs > 0 then a else b) = (if xs = [] then b else a)"
    for xs :: "f32 list" and a b :: f32
    by simp
  have p1: "pack_u32 1 = Inr (le_bytes 1)" and p0: "pack_u32 0 = Inr (le_bytes 0)"
    and pn: "pack_u32 N_VERTICES = Inr (le_bytes (of_nat N_VERTICES))"
    by (simp_all add: pack_u32_def N_VERTICES_def)
  have ranges_bytes:
    "concat (map (\<lambda>(vmin, vmax). pack_f32 vmin @ pack_f32 vmax)
        (map (\<lambda>v. volume_range (volume_block v samples)) [0..<k]))
      = concat (map le_bytes (flat_pairs (map (\<lambda>v. volume_range (volume_block v samples)) [0..<k])))"
    by (rule concat_ranges) (simp add: list_all_iff volume_range_not_nan)
  have "build_brs1 samples =
          bind_err (pack_u32 k) (\<lambda>nvol.
          bind_err (pack_u32 (length (filter isnan samples))) (\<lambda>nc.
            Inr (map (of_nat \<circ> of_char) ''BRS1'' @ le_bytes 1 @ le_bytes 0
                 @ le_bytes (of_nat N_VERTICES) @ nvol
                 @ pack_f32 (if filter (\<lambda>x. \<not> isnan x) samples = [] then 0
                             else np_min (filter (\<lambda>x. \<not> isnan x) samples))
                 @ pack_f32 (if filter (\<lambda>x. \<not> isnan x) samples = [] then 0
                             else np_max (filter (\<lambda>x. \<not> isnan x) samples))
                 @ nc
                 @ concat (map (\<lambda>(vmin, vmax). pack_f32 vmin @ pack_f32 vmax)
                     (map (\<lambda>v. volume_range (volume_block v samples)) [0..<k]))
                 @ tobytes samples)))"
    unfolding build_brs1_def Let_def k_def [symmetric] nc cat valid ranges nonempty
    by (simp only: len p1 p0 pn bind_err_def sum.case simp_thms if_False)
  also have "\<dots> =
     (if 2 ^ 32 \<le> k \<or> 2 ^ 32 \<le> length (filter isnan samples) then Inl StructError
      else Inr (brs1_layout k
                  (if filter (\<lambda>x. \<not> isnan x) samples = [] then 0
                   else np_min (filter (\<lambda>x. \<not> isnan x) samples))
                  (if filter (\<lambda>x. \<not> isnan x) samples = [] then 0
                   else np_max (filter (\<lambda>x. \<not> isnan x) samples))
                  (length (filter isnan samples))
                  (map (\<lambda>v. volume_range (volume_block v samples)) [0..<k]) samples))"
    unfolding ranges_bytes pack_f32_not_nan [OF global_range_not_nan(1)]
      pack_f32_not_nan [OF global_range_not_nan(2)] brs1_layout_def tobytes_def
    by (simp add: bind_err_def pack_u32_def not_le)
  finally show ?thesis
    unfolding Let_def k_def [symmetric] by (simp add: len)
qed

lemma decode_brs1_layout:
  assumes "k < 2 ^ 32" and "nc < 2 ^ 32" and "length ranges = k" and "length samples = N_VERTICES * k"
  shows "decode_stat_container (brs1_layout k gmin gmax nc ranges samples) =
           Some \<lparr>sc_n_vertices = N_VERTICES, sc_n_volumes = k, sc_global_min = gmin,
                  sc_global_max = gmax, sc_nan_count = nc, sc_volume_ranges = ranges,
                  sc_data = samples\<rparr>"
proof -
  have nv: "unat (of_nat N_VERTICES :: u32) = N_VERTICES"
    by (simp add: unat_of_nat_u32 N_VERTICES_def)
  have r1: "read_u32s (2 * k) (concat (map le_bytes (flat_pairs ranges)) @ rest) = Some (flat_pairs ranges, rest)" for rest
    by (rule read_u32s_le_bytes_n) (simp add: assms)
  have r2: "read_u32s (k * N_VERTICES) (concat (map le_bytes samples)) = Some (samples, [])"
    using read_u32s_le_bytes_n [of "k * N_VERTICES" samples "[]"] by (simp add: assms mult.commute)
  have uk: "unat (of_nat k :: u32) = k" and unc: "unat (of_nat nc :: u32) = nc"
    using assms by (simp_all add: unat_of_nat_u32)
  show ?thesis
    unfolding decode_stat_container_def brs1_layout_def
    by (simp add: uk unc nv r1 r2)
qed

subsection \<open>Decoding what the encoder built\<close>

lemma build_brs1_decoded:
  assumes "build_brs1 samples = Inr bytes"
  shows "decode_stat_container bytes =
           Some \<lparr>sc_n_vertices = N_VERTICES, sc_n_volumes = length samples div N_VERTICES,
                  sc_global_min = (if filter (\<lambda>x. \<not> isnan x) samples = [] then 0
                                   else np_min (filter (\<lambda>x. \<not> isnan x) samples)),
                  sc_global_max = (if filter (\<lambda>x. \<not> isnan x) samples = [] then 0
                                   else np_max (filter (\<lambda>x. \<not> isnan x) samples)),
                  sc_nan_count = length (filter isnan samples),
                  sc_volume_ranges = map (\<lambda>v. volume_range (volume_block v samples))
                                       [0..<length samples div N_VERTICES],
                  sc_data = samples\<rparr>"
    and "length samples = N_VERTICES * (length samples div N_VERTICES)"
proof -
  define k where "k = length samples div N_VERTICES"
  note eq = build_brs1_eq [of samples, unfolded Let_def, folded k_def]
  show len: "length samples = N_VERTICES * (length samples div N_VERTICES)"
    using assms eq unfolding k_def by (auto split: if_splits)
  have fit: "k < 2 ^ 32" "length (filter isnan samples) < 2 ^ 32"
    using assms eq len by (auto simp: k_def split: if_splits)
  have bytes: "bytes = brs1_layout k
      (if filter (\<lambda>x. \<not> isnan x) samples = [] then 0 else np_min (filter (\<lambda>x. \<not> isnan x) samples))
      (if filter (\<lambda>x. \<not> isnan x) samples = [] then 0 else np_max (filter (\<lambda>x. \<not> isnan x) samples))
      (length (filter isnan samples))
      (map (\<lambda>v. volume_range (volume_block v samples)) [0..<k]) samples"
    using assms eq len fit by (auto simp: k_def split: if_splits)
  show "decode_stat_container bytes =
           Some \<lparr>sc_n_vertices = N_VERTICES, sc_n_volumes = length samples div N_VERTICES,
                  sc_global_min = (if filter (\<lambda>x. \<not> isnan x) samples = [] then 0
                                   else np_min (filter (\<lambda>x. \<not> isnan x) samples)),
                  sc_global_max = (if filter (\<lambda>x. \<not> isnan x) samples = [] then 0
                                   else np_max (filter (\<lambda>x. \<not> isnan x) samples)),
                  sc_nan_count = length (filter isnan samples),
                  sc_volume_ranges = map (\<lambda>v. volume_range (volume_block v samples))
                                       [0..<length samples div N_VERTICES],
                  sc_data = samples\<rparr>"
    unfolding bytes k_def [symmetric] using fit len
    by (intro decode_brs1_layout) (simp_all add: k_def)
qed

lemma build_brs1_error:
  assumes "build_brs1 samples = Inl e" and "N_VERTICES dvd length samples"
  shows "e = StructError"
proof -
  have "length samples = N_VERTICES * (length samples div N_VERTICES)"
    using assms(2) by simp
  then show ?thesis
    using assms(1) build_brs1_eq [of samples] by (auto simp: Let_def split: if_splits)
qed

subsection \<open>Round trip, ranges and the size check\<close>

text \<open>
  C1.  For a sample array whose length is a multiple of the vertex count 10242, the
  buffer built by the statistics encoder decodes to the same samples, bit for bit and in
  the same order: through the container reader, and also by skipping the 32 header bytes
  and the 8 bytes of each volume's (min, max) pair and reading float32 values to the end.
  The encoder produces no buffer only when a count does not fit the uint32 header field
  (2^32 volumes or 2^32 NaN samples), where \<^verbatim>\<open>struct.pack\<close> raises.
\<close>

theorem stat_container_roundtrip:
  assumes "N_VERTICES dvd length samples"
  shows "case build_brs1 samples of
           Inr bytes \<Rightarrow>
             map_option sc_data (decode_stat_container bytes) = Some samples \<and>
             np_fromfile (drop (32 + 8 * (length samples div N_VERTICES)) bytes) = samples
         | Inl e \<Rightarrow>
             e = StructError \<and>
             (2 ^ 32 \<le> length samples div N_VERTICES \<or> 2 ^ 32 \<le> length (filter isnan samples))"
proof -
  define k where "k = length samples div N_VERTICES"
  have len: "length samples = N_VERTICES * k"
    using assms by (simp add: k_def)
  note eq = build_brs1_eq [of samples, unfolded Let_def, folded k_def]
  show ?thesis
  proof (cases "2 ^ 32 \<le> k \<or> 2 ^ 32 \<le> length (filter isnan samples)")
    case True
    then have "build_brs1 samples = Inl StructError"
      using len by (simp add: eq)
    then show ?thesis
      using True by (simp add: k_def [symmetric])
  next
    case False
    define gmin where "gmin = (if filter (\<lambda>x. \<not> isnan x) samples = [] then 0
                               else np_min (filter (\<lambda>x. \<not> isnan x) samples))"
    define gmax where "gmax = (if filter (\<lambda>x. \<not> isnan x) samples = [] then 0
                               else np_max (filter (\<lambda>x. \<not> isnan x) samples))"
    define ranges where "ranges = map (\<lambda>v. volume_range (volume_block v samples)) [0..<k]"
    define bytes where "bytes = brs1_layout k gmin gmax (length (filter isnan samples)) ranges samples"
    have enc: "build_brs1 samples = Inr bytes"
      using len False
      by (simp add: eq bytes_def gmin_def gmax_def ranges_def)
    have dec: "decode_stat_container bytes =
        Some \<lparr>sc_n_vertices = N_VERTICES, sc_n_volumes = k, sc_global_min = gmin,
               sc_global_max = gmax, sc_nan_count = length (filter isnan samples),
               sc_volume_ranges = ranges, sc_data = samples\<rparr>"
      unfolding bytes_def using False len
      by (intro decode_brs1_layout) (simp_all add: ranges_def)
    define hdr where "hdr = map (of_nat \<circ> of_char) ''BRS1'' @ le_bytes 1 @ le_bytes 0
        @ le_bytes (of_nat N_VERTICES) @ le_bytes (of_nat k) @ le_bytes gmin @ le_bytes gmax
        @ le_bytes (of_nat (length (filter isnan samples)))"
    define rng where "rng = concat (map le_bytes (flat_pairs ranges))"
    have split: "bytes = (hdr @ rng) @ tobytes samples"
      by (simp add: bytes_def brs1_layout_def hdr_def rng_def tobytes_def)
    have "length rng = 8 * k"
      by (simp add: rng_def length_concat comp_def sum_list_triv ranges_def)
    moreover have "length hdr = 32"
      by (simp add: hdr_def)
    ultimately have "length (hdr @ rng) = 32 + 8 * k"
      by simp
    then have "drop (32 + 8 * k) bytes = tobytes samples"
      unfolding split by (metis append_eq_conv_conj)
    then show ?thesis
      by (simp add: enc dec k_def [symmetric] np_fromfile_tobytes)
  qed
qed

lemma N_VERTICES_pos: "0 < N_VERTICES"
  by (simp add: N_VERTICES_def)

lemma length_two_volumes: "length two_volumes = 2 * N_VERTICES"
  by (simp add: two_volumes_def)

lemma two_volumes_fit:
  "\<not> (2 ^ 32 \<le> length two_volumes div N_VERTICES \<or> 2 ^ 32 \<le> length (filter isnan two_volumes))"
proof -
  have "length (filter isnan two_volumes) \<le> 2 * N_VERTICES"
    using length_filter_le [of isnan two_volumes] by (simp add: length_two_volumes)
  then show ?thesis
    by (simp add: length_two_volumes N_VERTICES_def)
qed

theorem stat_container_roundtrip_witness:
  "N_VERTICES dvd length two_volumes \<and>
   (\<exists>bytes. build_brs1 two_volumes = Inr bytes \<and>
      map_option sc_data (decode_stat_container bytes) = Some two_volumes \<and>
      np_fromfile (drop (32 + 8 * 2) bytes) = two_volumes)"
proof -
  have dvd: "N_VERTICES dvd length two_volumes"
    by (simp add: length_two_volumes)
  have two: "length two_volumes div N_VERTICES = 2"
    using N_VERTICES_pos by (simp add: length_two_volumes)
  show ?thesis
    using stat_container_roundtrip [OF dvd] two_volumes_fit dvd
    by (cases "build_brs1 two_volumes") (simp_all add: two)
qed

text \<open>
  C2.  In every buffer the statistics encoder produces, the \<^verbatim>\<open>nan_count\<close> field is the
  number of NaN samples; \<^verbatim>\<open>global_min\<close> and \<^verbatim>\<open>global_max\<close> are the range of the non-NaN
  samples of the whole array; there is one (min, max) pair per volume, in volume order,
  and pair \<open>v\<close> is the range of the non-NaN samples of block \<open>v\<close> alone.  A range is a pair
  of non-NaN samples that bound every non-NaN sample, and it is (0.0, 0.0) when there is
  no non-NaN sample; no range field is ever NaN.
\<close>

theorem stat_ranges_exclude_nan:
  assumes "build_brs1 samples = Inr bytes"
  shows "\<exists>c. decode_stat_container bytes = Some c \<and>
           sc_nan_count c = length (filter isnan samples) \<and>
           is_range_of samples (sc_global_min c, sc_global_max c) \<and>
           \<not> isnan (sc_global_min c) \<and> \<not> isnan (sc_global_max c) \<and>
           sc_n_volumes c = length samples div N_VERTICES \<and>
           length (sc_volume_ranges c) = sc_n_volumes c \<and>
           list_all (\<lambda>v. is_range_of (volume_block v samples) (sc_volume_ranges c ! v) \<and>
                         \<not> isnan (fst (sc_volume_ranges c ! v)) \<and>
                         \<not> isnan (snd (sc_volume_ranges c ! v)))
             [0..<sc_n_volumes c]"
proof -
  define k where "k = length samples div N_VERTICES"
  define gmin where "gmin = (if filter (\<lambda>x. \<not> isnan x) samples = [] then 0
                             else np_min (filter (\<lambda>x. \<not> isnan x) samples))"
  define gmax where "gmax = (if filter (\<lambda>x. \<not> isnan x) samples = [] then 0
                             else np_max (filter (\<lambda>x. \<not> isnan x) samples))"
  define ranges where "ranges = map (\<lambda>v. volume_range (volume_block v samples)) [0..<k]"
  define c where "c = \<lparr>sc_n_vertices = N_VERTICES, sc_n_volumes = k, sc_global_min = gmin,
               sc_global_max = gmax, sc_nan_count = length (filter isnan samples),
               sc_volume_ranges = ranges, sc_data = samples\<rparr>"
  note eq = build_brs1_eq [of samples, unfolded Let_def, folded k_def, folded gmin_def gmax_def ranges_def]
  have len: "length samples = N_VERTICES * k"
    using assms eq by (auto split: if_splits)
  have fit: "k < 2 ^ 32" "length (filter isnan samples) < 2 ^ 32"
    using assms eq len by (auto split: if_splits)
  have bytes: "bytes = brs1_layout k gmin gmax (length (filter isnan samples)) ranges samples"
    using assms eq len fit by (auto split: if_splits)
  have dec: "decode_stat_container bytes = Some c"
    unfolding bytes c_def using fit len
    by (intro decode_brs1_layout) (simp_all add: ranges_def)
  have global: "is_range_of samples (gmin, gmax)"
    unfolding gmin_def gmax_def by (rule is_range_of_min_max)
  have vol: "is_range_of (volume_block v samples) (ranges ! v)" if "v < k" for v
    using that by (simp add: ranges_def is_range_of_volume_range)
  have "is_range_of (volume_block v samples) (ranges ! v) \<and>
        \<not> isnan (fst (ranges ! v)) \<and> \<not> isnan (snd (ranges ! v))" if "v < k" for v
    using vol [OF that] is_range_of_not_nan [of "volume_block v samples" "ranges ! v"] by simp
  then have "list_all (\<lambda>v. is_range_of (volume_block v samples) (ranges ! v) \<and>
                       \<not> isnan (fst (ranges ! v)) \<and> \<not> isnan (snd (ranges ! v))) [0..<k]"
    unfolding list_all_iff by simp
  moreover have "length ranges = k"
    by (simp add: ranges_def)
  ultimately show ?thesis
    using dec global is_range_of_not_nan [OF global]
    by (intro exI [of _ c]) (simp add: c_def k_def [symmetric])
qed

lemma isnan_examples: "\<not> isnan 0x3F800000" "isnan 0x7FC00000"
  by (simp_all add: isnan_def)

lemma two_volumes_nan: "filter isnan two_volumes = replicate N_VERTICES 0x7FC00000"
  by (simp add: two_volumes_def isnan_examples)

lemma two_volumes_valid: "filter (\<lambda>x. \<not> isnan x) two_volumes = replicate N_VERTICES 0x3F800000"
  by (simp add: two_volumes_def isnan_examples)

lemma two_volumes_blocks:
  "volume_block 0 two_volumes = replicate N_VERTICES 0x3F800000"
  "volume_block 1 two_volumes = replicate N_VERTICES 0x7FC00000"
  by (simp_all add: volume_block_def two_volumes_def)

lemma is_range_of_constant:
  assumes "is_range_of xs r" and "filter (\<lambda>x. \<not> isnan x) xs = replicate n a" and "0 < n"
  shows "r = (a, a)"
proof -
  have "fst r \<in> set (replicate n a)" "snd r \<in> set (replicate n a)"
    using assms by (auto simp: is_range_of_def Let_def split: if_splits)
  then show ?thesis
    by (simp add: prod_eq_iff)
qed

lemma is_range_of_all_nan:
  assumes "is_range_of xs r" and "filter (\<lambda>x. \<not> isnan x) xs = []"
  shows "r = (0, 0)"
  using assms by (simp add: is_range_of_def)

theorem stat_ranges_exclude_nan_witness:
  "\<exists>bytes c. build_brs1 two_volumes = Inr bytes \<and> decode_stat_container bytes = Some c \<and>
     sc_nan_count c = N_VERTICES \<and>
     sc_global_min c = 0x3F800000 \<and> sc_global_max c = 0x3F800000 \<and>
     sc_volume_ranges c = [(0x3F800000, 0x3F800000), (0, 0)]"
proof -
  have two: "length two_volumes div N_VERTICES = 2"
    using N_VERTICES_pos by (simp add: length_two_volumes)
  have "length two_volumes = N_VERTICES * (length two_volumes div N_VERTICES)"
    by (simp add: two length_two_volumes)
  then obtain bytes where enc: "build_brs1 two_volumes = Inr bytes"
    using two_volumes_fit by (auto simp: build_brs1_eq Let_def)
  obtain c where c: "decode_stat_container bytes = Some c"
      "sc_nan_count c = length (filter isnan two_volumes)"
      "is_range_of two_volumes (sc_global_min c, sc_global_max c)"
      "sc_n_volumes c = 2" "length (sc_volume_ranges c) = sc_n_volumes c"
      "list_all (\<lambda>v. is_range_of (volume_block v two_volumes) (sc_volume_ranges c ! v) \<and>
                     \<not> isnan (fst (sc_volume_ranges c ! v)) \<and>
                     \<not> isnan (snd (sc_volume_ranges c ! v))) [0..<sc_n_volumes c]"
    using stat_ranges_exclude_nan [OF enc] two by auto
  have upt: "[0..<2] = [0, Suc 0]"
    by (simp add: upt_rec)
  have r0: "is_range_of (volume_block 0 two_volumes) (sc_volume_ranges c ! 0)"
    and r1: "is_range_of (volume_block 1 two_volumes) (sc_volume_ranges c ! 1)"
    using c(6) by (simp_all add: c(4) upt)
  have v0: "sc_volume_ranges c ! 0 = (0x3F800000, 0x3F800000)"
    by (rule is_range_of_constant [OF r0 _ N_VERTICES_pos])
       (simp add: two_volumes_blocks isnan_examples)
  have v1: "sc_volume_ranges c ! 1 = (0, 0)"
    using r1 two_volumes_blocks(2)
    by (intro is_range_of_all_nan [of "volume_block 1 two_volumes"]) (simp_all add: isnan_examples)
  have "length (sc_volume_ranges c) = 2"
    using c(4,5) by simp
  then have ranges: "sc_volume_ranges c = [sc_volume_ranges c ! 0, sc_volume_ranges c ! 1]"
    by (auto simp: list_eq_iff_nth_eq less_Suc_eq numeral_2_eq_2)
  have global: "(sc_global_min c, sc_global_max c) = (0x3F800000, 0x3F800000)"
    by (rule is_range_of_constant [OF c(3) two_volumes_valid N_VERTICES_pos])
  show ?thesis
    using enc c(1) c(2) global ranges v0 v1
    by (intro exI [of _ bytes] exI [of _ c]) (simp add: two_volumes_nan)
qed

text \<open>
  C4.  \<^verbatim>\<open>convert_dat_to_brs1\<close> on an existing input file raises the size-mismatch
  \<^verbatim>\<open>ValueError\<close> exactly when the number of samples read is not a multiple of 10242, with
  \<open>n_volumes = len(samples) // 10242\<close> in the message, and then leaves every file as it
  was.  Whenever it succeeds, the output file holds the compressed buffer of the encoder,
  whose header has \<open>n_volumes = len(samples) // 10242\<close> and
  \<open>n_volumes * n_vertices = len(samples)\<close>, and whose data are all the samples.
\<close>

theorem size_mismatch_check:
  assumes "files w dat_path = Some contents"
  shows "let samples = np_fromfile contents;
             r = convert_dat_to_brs1 gzip dat_path output_path expected_volumes w
         in ((\<exists>a b c. fst r = Inl (SizeMismatch a b c)) \<longleftrightarrow> \<not> N_VERTICES dvd length samples) \<and>
            (if \<not> N_VERTICES dvd length samples
             then fst r = Inl (SizeMismatch (length samples) N_VERTICES (length samples div N_VERTICES)) \<and>
                  files (snd r) = files w
             else case fst r of
                    Inl e \<Rightarrow> e = StructError \<and> files (snd r) = files w
                  | Inr u \<Rightarrow>
                      (\<exists>buf c. build_brs1 samples = Inr buf \<and>
                         files (snd r) = (files w)(output_path \<mapsto> gzip buf) \<and>
                         decode_stat_container buf = Some c \<and>
                         sc_n_volumes c = length samples div N_VERTICES \<and>
                         sc_n_volumes c * sc_n_vertices c = length samples \<and>
                         sc_data c = samples))"
proof -
  define samples where "samples = np_fromfile contents"
  define k where "k = length samples div N_VERTICES"
  define w1 where "w1 = (if k \<noteq> expected_volumes then print (Warning_volumes expected_volumes k) w else w)"
  have files_w1: "files w1 = files w"
    by (simp add: w1_def print_def)
  have conv: "convert_dat_to_brs1 gzip dat_path output_path expected_volumes w =
      (case build_brs1 samples of
         Inl e \<Rightarrow> (Inl e, w1)
       | Inr buf \<Rightarrow> (Inr (), print Range_line (print (Counts N_VERTICES k)
                        (print (Converted dat_path output_path)
                           (w1\<lparr>files := (files w1)(output_path \<mapsto> gzip buf)\<rparr>)))))"
    unfolding convert_dat_to_brs1_def Let_def w1_def k_def samples_def
    by (simp add: assms)
  note eq = build_brs1_eq [of samples, unfolded Let_def, folded k_def]
  have dvd: "N_VERTICES dvd length samples \<longleftrightarrow> length samples = N_VERTICES * k"
    unfolding k_def by (metis dvd_mult_div_cancel dvd_triv_left)
  show ?thesis
  proof (cases "N_VERTICES dvd length samples")
    case False
    then have "build_brs1 samples = Inl (SizeMismatch (length samples) N_VERTICES k)"
      using dvd by (simp add: eq)
    then show ?thesis
      using False by (simp add: conv Let_def samples_def [symmetric] k_def [symmetric] files_w1)
  next
    case True
    then have len: "length samples = N_VERTICES * k"
      using dvd by simp
    show ?thesis
    proof (cases "build_brs1 samples")
      case (Inl e)
      then have "e = StructError"
        using True by (rule build_brs1_error)
      then show ?thesis
        using True Inl by (simp add: conv Let_def samples_def [symmetric] files_w1)
    next
      case (Inr buf)
      note dec = build_brs1_decoded [OF Inr]
      show ?thesis
        using True Inr len
        by (simp add: conv Let_def samples_def [symmetric] files_w1 print_def dec(1)
            k_def [symmetric] mult.commute)
    qed
  qed
qed

theorem size_mismatch_check_witness:
  "fst (convert_dat_to_brs1 id ''in.dat'' ''out.bin.gz'' 5 one_sample_world)
     = Inl (SizeMismatch 1 N_VERTICES 0) \<and>
   files (snd (convert_dat_to_brs1 id ''in.dat'' ''out.bin.gz'' 5 one_sample_world))
     = files one_sample_world \<and>
   (\<nexists>a b c. fst (convert_dat_to_brs1 id ''in.dat'' ''out.bin.gz'' 5 empty_input_world)
     = Inl (SizeMismatch a b c))"
proof -
  have f1: "files one_sample_world ''in.dat'' = Some [0, 0, 128, 63]"
    by (simp add: one_sample_world_def)
  have f2: "files empty_input_world ''in.dat'' = Some []"
    by (simp add: empty_input_world_def)
  show ?thesis
    using size_mismatch_check [OF f1, of id "''out.bin.gz''" 5]
      size_mismatch_check [OF f2, of id "''out.bin.gz''" 5]
    by (simp add: Let_def N_VERTICES_def)
qed

section \<open>Properties of the geometry path\<close>

lemma triples_flat_triples [simp]: "triples (flat_triples ts) = ts"
  by (induction ts rule: flat_triples.induct) simp_all

lemma length_flat_triples [simp]: "length (flat_triples ts) = 3 * length ts"
  by (induction ts rule: flat_triples.induct) simp_all

lemma concat_triples:
  "concat (map (\<lambda>(x, y, z). le_bytes x @ le_bytes y @ le_bytes z) ts)
     = concat (map le_bytes (flat_triples ts))"
  by (induction ts rule: flat_triples.induct) simp_all

lemma concat_float_triples:
  "concat (map (\<lambda>(x, y, z). pack_f32 x @ pack_f32 y @ pack_f32 z) ts)
     = concat (map le_bytes (flat_triples (map quiet3 ts)))"
  by (induction ts rule: flat_triples.induct) (simp_all add: pack_f32_def quiet3_def)

lemma length_concat_le_bytes: "length (concat (map le_bytes ws)) = 4 * length ws"
  by (induction ws) simp_all

lemma quiet_bit_push: "(0x00400000 :: f32) = push_bit 22 1"
  by simp

lemma bit_quiet_bit: "bit (0x00400000 :: f32) n \<longleftrightarrow> n = 22"
  unfolding quiet_bit_push
  by (auto simp only: bit_push_bit_iff bit_1_iff possible_bit_word len_num1 len_bit0 One_nat_def)

lemma quiet_no_snan: "\<not> is_snan x \<Longrightarrow> quiet x = x"
proof (cases "isnan x")
  case False
  then show ?thesis by (simp add: quiet_def)
next
  case True
  assume "\<not> is_snan x"
  with True have b: "bit x 22" by (simp add: is_snan_def)
  have "x OR 0x00400000 = x"
  proof (rule bit_word_eqI)
    fix n :: nat
    assume "n < LENGTH(32)"
    show "bit (x OR 0x00400000) n = bit x n"
      unfolding bit_or_iff bit_quiet_bit using b by auto
  qed
  then show ?thesis
    using True by (simp only: quiet_def if_True)
qed

lemma isnan_quiet: "isnan (quiet x) \<Longrightarrow> bit (quiet x) 22"
proof (cases "isnan x")
  case True
  have "bit (x OR 0x00400000) 22"
    unfolding bit_or_iff bit_quiet_bit by simp
  then show ?thesis
    using True by (simp only: quiet_def if_True)
next
  case False
  assume "isnan (quiet x)"
  then show ?thesis using False by (simp only: quiet_def if_False)
qed

lemma no_snan_quiet: "\<not> is_snan (quiet x)"
  using isnan_quiet [of x] by (auto simp only: is_snan_def)

lemma quiet3_no_snan3: "no_snan3 v \<Longrightarrow> quiet3 v = v"
  by (cases v) (simp add: no_snan3_def quiet3_def quiet_no_snan)

lemma map_quiet3_id: "list_all no_snan3 ts \<Longrightarrow> map quiet3 ts = ts"
  by (induction ts) (simp_all add: quiet3_no_snan3)

lemma build_brg1_eq:
  "build_brg1 vertices normals faces =
     (if 2 ^ 32 \<le> length vertices \<or> 2 ^ 32 \<le> length faces then Inl StructError
      else Inr (brg1_layout (map quiet3 vertices) (map quiet3 normals) faces))"
  unfolding build_brg1_def Let_def brg1_layout_def concat_float_triples concat_triples
  by (simp add: bind_err_def pack_u32_def not_le)

lemma decode_brg1_layout:
  assumes "length vertices < 2 ^ 32" and "length faces < 2 ^ 32"
    and "length normals = length vertices"
  shows "decode_geom_container (brg1_layout vertices normals faces) =
           Some \<lparr>gc_n_vertices = length vertices, gc_n_faces = length faces,
                  gc_vertices = vertices, gc_normals = normals, gc_faces = faces\<rparr>"
proof -
  have uv: "unat (of_nat (length vertices) :: u32) = length vertices"
    and uf: "unat (of_nat (length faces) :: u32) = length faces"
    using assms by (simp_all add: unat_of_nat_u32)
  have r1: "read_u32s (3 * length vertices) (concat (map le_bytes (flat_triples vertices)) @ rest)
              = Some (flat_triples vertices, rest)" for rest
    by (rule read_u32s_le_bytes_n) simp
  have r2: "read_u32s (3 * length vertices) (concat (map le_bytes (flat_triples normals)) @ rest)
              = Some (flat_triples normals, rest)" for rest
    by (rule read_u32s_le_bytes_n) (simp add: assms)
  have r3: "read_u32s (3 * length faces) (concat (map le_bytes (flat_triples faces)))
              = Some (flat_triples faces, [])"
    using read_u32s_le_bytes_n [of "3 * length faces" "flat_triples faces" "[]"] by simp
  show ?thesis
    unfolding decode_geom_container_def brg1_layout_def
    by (simp add: uv uf r1 r2 r3)
qed

text \<open>
  What the buffer of the encoder decodes to, for any arrays: the faces as they are, and the
  vertices and normals with every coordinate after \<open>quiet\<close>.
\<close>

lemma build_brg1_decoded:
  assumes "length normals = length vertices"
    and "length vertices < 2 ^ 32" and "length faces < 2 ^ 32"
  shows "\<exists>bytes. build_brg1 vertices normals faces = Inr bytes \<and>
           decode_geom_container bytes =
             Some \<lparr>gc_n_vertices = length vertices, gc_n_faces = length faces,
                    gc_vertices = map quiet3 vertices, gc_normals = map quiet3 normals,
                    gc_faces = faces\<rparr>"
  using decode_brg1_layout [of "map quiet3 vertices" faces "map quiet3 normals"] assms
  by (simp add: build_brg1_eq)

subsection \<open>No signalling NaN leaves the reader\<close>

lemma unpack_f32_be_no_snan: "unpack_f32_be f = Inr (x, rest) \<Longrightarrow> \<not> is_snan x"
  by (auto simp: unpack_f32_be_def no_snan_quiet split: sum.splits)

lemma read_triples_length:
  "read_triples unpack n f = Inr (rows, rest) \<Longrightarrow> length rows = n"
  by (induction n arbitrary: f rows rest) (auto split: sum.splits)

lemma read_triples_no_snan:
  "read_triples unpack_f32_be n f = Inr (rows, rest) \<Longrightarrow> list_all no_snan3 rows"
proof (induction n arbitrary: f rows rest)
  case 0
  then show ?case by simp
next
  case (Suc n)
  from Suc.prems obtain x f1 y f2 z f3 rows' where
    u: "unpack_f32_be f = Inr (x, f1)" "unpack_f32_be f1 = Inr (y, f2)"
       "unpack_f32_be f2 = Inr (z, f3)"
    and r: "read_triples unpack_f32_be n f3 = Inr (rows', rest)"
    and rows: "rows = (x, y, z) # rows'"
    by (auto split: sum.splits)
  show ?case
    using u [THEN unpack_f32_be_no_snan] Suc.IH [OF r]
    by (simp add: rows no_snan3_def)
qed

lemma read_freesurfer_surface_no_snan:
  assumes "read_freesurfer_surface contents = Inr (vertices, faces)"
  shows "list_all no_snan3 vertices" and "length vertices < 2 ^ 32" and "length faces < 2 ^ 32"
proof -
  from assms obtain f where "read_body f = Inr (vertices, faces)"
    by (auto simp: read_freesurfer_surface_def bind_err_def Let_def split: if_splits sum.splits)
  then obtain nv f1 nf f2 f3 f4 where
    v: "read_triples unpack_f32_be (unat (nv :: u32)) f2 = Inr (vertices, f3)"
    and fs: "read_triples unpack_be (unat (nf :: u32)) f3 = Inr (faces, f4)"
    by (auto simp: read_body_def bind_err_def split: sum.splits)
  show "list_all no_snan3 vertices"
    using v by (rule read_triples_no_snan)
  have "length vertices = unat nv" "length faces = unat nf"
    using v fs by (simp_all add: read_triples_length)
  moreover have "unat nv < 2 ^ 32" "unat nf < 2 ^ 32"
    using unsigned_less [of nv] unsigned_less [of nf] by simp_all
  ultimately show "length vertices < 2 ^ 32" and "length faces < 2 ^ 32"
    by simp_all
qed

subsection \<open>Round trip of the geometry container\<close>

text \<open>
  C3.  For a surface and one normal per vertex, none of whose coordinates is a signalling
  NaN, the buffer built by the geometry encoder decodes, by the layout of the
  GEOM-CONTAINER (magic, version 1, flags 0, the two counts, then vertex, normal and face
  triples, all little-endian), to the same vertex positions, normals and face indices,
  each float with the same 32 bits.  The encoder produces no buffer only when a count does
  not fit its uint32 header field.  The arrays of the program hold no signalling NaN: the
  reader stores none (\<open>read_freesurfer_surface_no_snan\<close>), and every coordinate the
  estimator returns is a quotient, which a division that follows IEEE 754 never makes
  signalling (\<open>compute_vertex_normals_no_snan\<close>); \<open>convert_pial_to_brg1_roundtrip\<close> states
  the round trip for the conversion of a file.  A signalling NaN handed to the encoder
  would be written as the quiet NaN of the same payload (\<open>build_brg1_decoded\<close>).
\<close>

theorem geom_container_roundtrip:
  assumes "length normals = length vertices"
    and "list_all no_snan3 vertices" and "list_all no_snan3 normals"
  shows "case build_brg1 vertices normals faces of
           Inr bytes \<Rightarrow>
             decode_geom_container bytes =
               Some \<lparr>gc_n_vertices = length vertices, gc_n_faces = length faces,
                      gc_vertices = vertices, gc_normals = normals, gc_faces = faces\<rparr>
         | Inl e \<Rightarrow> e = StructError \<and> (2 ^ 32 \<le> length vertices \<or> 2 ^ 32 \<le> length faces)"
proof (cases "2 ^ 32 \<le> length vertices \<or> 2 ^ 32 \<le> length faces")
  case True
  then show ?thesis by (simp add: build_brg1_eq)
next
  case False
  then have "length vertices < 2 ^ 32" "length faces < 2 ^ 32" by simp_all
  from decode_brg1_layout [OF this assms(1)] False show ?thesis
    by (simp add: build_brg1_eq map_quiet3_id [OF assms(2)] map_quiet3_id [OF assms(3)])
qed

lemma corner_no_snan: "list_all no_snan3 corner_vertices" "list_all no_snan3 corner_normals"
  by (simp_all add: corner_vertices_def corner_normals_def no_snan3_def is_snan_def isnan_def)

theorem geom_container_roundtrip_witness:
  "length corner_normals = length corner_vertices \<and>
   list_all no_snan3 corner_vertices \<and> list_all no_snan3 corner_normals \<and>
   (\<exists>bytes. build_brg1 corner_vertices corner_normals corner_faces = Inr bytes \<and>
      decode_geom_container bytes =
        Some \<lparr>gc_n_vertices = 4, gc_n_faces = 2, gc_vertices = corner_vertices,
               gc_normals = corner_normals, gc_faces = corner_faces\<rparr>)"
proof -
  have len: "length corner_normals = length corner_vertices"
    by (simp add: corner_normals_def corner_vertices_def)
  have counts: "length corner_vertices = 4" "length corner_faces = 2"
    by (simp_all add: corner_vertices_def corner_faces_def)
  obtain bytes where enc: "build_brg1 corner_vertices corner_normals corner_faces = Inr bytes"
    by (simp add: build_brg1_eq counts)
  have "decode_geom_container bytes =
        Some \<lparr>gc_n_vertices = 4, gc_n_faces = 2, gc_vertices = corner_vertices,
               gc_normals = corner_normals, gc_faces = corner_faces\<rparr>"
    using geom_container_roundtrip [OF len corner_no_snan, of corner_faces]
    unfolding enc counts by simp
  then show ?thesis
    using len corner_no_snan enc by blast
qed

section \<open>Properties of the normal estimator\<close>

lemma add_face_cases:
  "case add_face ops vertices normals face of
     Inl e \<Rightarrow> e = IndexError \<and> \<not> faces_in_range (length vertices) [face]
   | Inr normals' \<Rightarrow> faces_in_range (length vertices) [face] \<and> length normals' = length normals"
  by (cases face) (simp add: add_face_def faces_in_range_def Let_def)

lemma faces_in_range_Cons:
  "faces_in_range n (face # faces) \<longleftrightarrow> faces_in_range n [face] \<and> faces_in_range n faces"
  by (simp add: faces_in_range_def)

lemma accumulate_cases:
  "case accumulate ops vertices normals faces of
     Inl e \<Rightarrow> e = IndexError \<and> \<not> faces_in_range (length vertices) faces
   | Inr normals' \<Rightarrow> faces_in_range (length vertices) faces \<and> length normals' = length normals"
proof (induction faces arbitrary: normals)
  case Nil
  show ?case by (simp add: faces_in_range_def)
next
  case (Cons face faces)
  show ?case
  proof (cases "add_face ops vertices normals face")
    case (Inl e)
    then show ?thesis
      using add_face_cases [where ops = ops and vertices = vertices and normals = normals and face = face]
      by (simp add: faces_in_range_Cons [of _ face faces])
  next
    case (Inr normals')
    then show ?thesis
      using add_face_cases [where ops = ops and vertices = vertices and normals = normals and face = face] Cons.IH [where normals = normals']
      by (simp add: faces_in_range_Cons [of _ face faces] split: sum.splits)
  qed
qed

text \<open>
  C9.  \<^verbatim>\<open>compute_vertex_normals\<close> indexes the vertex array by the face indices without a
  guard: it raises \<^verbatim>\<open>IndexError\<close> exactly when some face has an index at or beyond the
  number of vertices, and returns one normal per vertex exactly when every face index is in
  range.  This holds for every choice of the arithmetic.
\<close>

theorem normals_index_safety:
  "case compute_vertex_normals ops vertices faces of
     Inl e \<Rightarrow> e = IndexError \<and> \<not> faces_in_range (length vertices) faces
   | Inr normals \<Rightarrow> faces_in_range (length vertices) faces \<and> length normals = length vertices"
proof -
  define zeros where "zeros = replicate (length vertices) (fzero ops, fzero ops, fzero ops)"
  have len: "length zeros = length vertices"
    by (simp add: zeros_def)
  show ?thesis
    using accumulate_cases [where ops = ops and vertices = vertices and normals = zeros and faces = faces] len
    unfolding compute_vertex_normals_def Let_def zeros_def [symmetric]
    by (cases "accumulate ops vertices zeros faces") (simp_all add: bind_err_def)
qed

theorem normals_index_safety_witness:
  "compute_vertex_normals exact_ops triangle [(0, 1, 2), (0, 1, 3)] = Inl IndexError \<and>
   (\<exists>normals. compute_vertex_normals exact_ops triangle [(0, 1, 2)] = Inr normals \<and>
      length normals = 3)"
proof -
  have bad: "\<not> faces_in_range (length triangle) [(0, 1, 2), (0, 1, 3)]"
    and good: "faces_in_range (length triangle) [(0, 1, 2)]"
    and len: "length triangle = 3"
    by (simp_all add: faces_in_range_def triangle_def)
  have "compute_vertex_normals exact_ops triangle [(0, 1, 2), (0, 1, 3)] = Inl IndexError"
    using normals_index_safety [where ops = exact_ops and vertices = triangle
        and faces = "[(0, 1, 2), (0, 1, 3)]"] bad
    by (cases "compute_vertex_normals exact_ops triangle [(0, 1, 2), (0, 1, 3)]") simp_all
  moreover have "\<exists>normals. compute_vertex_normals exact_ops triangle [(0, 1, 2)] = Inr normals \<and>
      length normals = 3"
    using normals_index_safety [where ops = exact_ops and vertices = triangle
        and faces = "[(0, 1, 2)]"] good len
    by (cases "compute_vertex_normals exact_ops triangle [(0, 1, 2)]") simp_all
  ultimately show ?thesis by simp
qed

section \<open>Properties of the surface reader\<close>

lemma endswith_snoc:
  "endswith (comment @ [c]) [0x0A, 0x0A] \<longleftrightarrow> comment \<noteq> [] \<and> last comment = 0x0A \<and> c = 0x0A"
proof (cases comment rule: rev_cases)
  case Nil
  then show ?thesis by (simp add: endswith_def)
next
  case (snoc ys y)
  then show ?thesis by (auto simp: endswith_def)
qed

lemma has_terminator_short: "length s \<le> 1 \<Longrightarrow> \<not> has_terminator s"
  by (cases s rule: has_terminator.cases) simp_all

lemma read_comment_eof:
  "read_comment comment f = Inl UnexpectedEOF \<longleftrightarrow> \<not> has_terminator (prev comment @ f)"
proof (induction f arbitrary: comment)
  case Nil
  show ?case by (simp add: has_terminator_short prev_def)
next
  case (Cons c f)
  have IH: "read_comment (comment @ [c]) f = Inl UnexpectedEOF \<longleftrightarrow> \<not> has_terminator (c # f)"
    using Cons.IH [of "comment @ [c]"] by (simp add: prev_def)
  show ?case
  proof (cases "comment = []")
    case True
    then show ?thesis using IH by (simp add: endswith_def prev_def Let_def)
  next
    case False
    then show ?thesis using IH by (auto simp: endswith_snoc prev_def Let_def)
  qed
qed

lemma read_comment_error: "read_comment comment f = Inl e \<Longrightarrow> e = UnexpectedEOF"
  by (induction f arbitrary: comment) (auto simp: Let_def split: if_splits)

lemma endswith_append_long:
  "2 \<le> length s \<Longrightarrow> endswith (p @ s) [a, b] \<longleftrightarrow> endswith s [a, b]"
  by (auto simp: endswith_def numeral_2_eq_2)

lemma endswith_prev:
  "endswith (prev comment @ [c]) [0x0A, 0x0A] \<longleftrightarrow> endswith (comment @ [c]) [0x0A, 0x0A]"
  unfolding endswith_snoc by (simp add: prev_def)

lemma has_terminator_Cons: "has_terminator s \<Longrightarrow> has_terminator (x # s)"
  by (cases s) simp_all

lemma read_comment_region:
  assumes "c \<noteq> []" and "endswith (prev comment @ c) [0x0A, 0x0A]"
    and "\<not> has_terminator (prev comment @ butlast c)"
  shows "read_comment comment (c @ body) = Inr body"
  using assms
proof (induction c arbitrary: comment)
  case Nil
  then show ?case by simp
next
  case (Cons x c)
  show ?case
  proof (cases "c = []")
    case True
    have "endswith (comment @ [x]) [0x0A, 0x0A]"
      using Cons.prems(2) True by (simp add: endswith_prev)
    then show ?thesis using True by simp
  next
    case False
    have no: "\<not> endswith (comment @ [x]) [0x0A, 0x0A]"
    proof
      assume "endswith (comment @ [x]) [0x0A, 0x0A]"
      then have "prev comment @ butlast (x # c) = 0x0A # 0x0A # butlast c"
        using False by (simp add: endswith_snoc prev_def)
      then show False using Cons.prems(3) by simp
    qed
    have e: "endswith (prev (comment @ [x]) @ c) [0x0A, 0x0A]"
    proof -
      have "2 \<le> length (x # c)" using False by (cases c) simp_all
      then have "endswith (x # c) [0x0A, 0x0A]"
        using Cons.prems(2) endswith_append_long [of "x # c" "prev comment"] by simp
      then show ?thesis by (simp add: prev_def)
    qed
    have t: "\<not> has_terminator (prev (comment @ [x]) @ butlast c)"
    proof
      assume "has_terminator (prev (comment @ [x]) @ butlast c)"
      then have h: "has_terminator (x # butlast c)" by (simp add: prev_def)
      have "has_terminator (prev comment @ x # butlast c)"
        using h has_terminator_Cons [of "x # butlast c" "last comment"] by (simp add: prev_def)
      then show False using Cons.prems(3) False by simp
    qed
    show ?thesis
      using no Cons.IH [OF False e t] by simp
  qed
qed

lemma read_freesurfer_surface_comment:
  assumes "comment_region comment"
  shows "read_freesurfer_surface ([0xFF, 0xFF, 0xFE] @ comment @ body) = read_body body"
proof -
  have ne: "comment \<noteq> []"
    using assms by (auto simp: comment_region_def endswith_def)
  have "read_comment [] (comment @ body) = Inr body"
    using assms ne by (intro read_comment_region) (simp_all add: comment_region_def prev_def)
  then show ?thesis
    by (simp add: read_freesurfer_surface_def bind_err_def)
qed

lemma read_freesurfer_surface_eof:
  assumes "take 3 contents = [0xFF, 0xFF, 0xFE]" and "\<not> has_terminator (drop 3 contents)"
  shows "read_freesurfer_surface contents = Inl UnexpectedEOF"
proof -
  have "read_comment [] (drop 3 contents) = Inl UnexpectedEOF"
    using assms(2) by (simp add: read_comment_eof prev_def)
  then show ?thesis
    using assms(1) by (simp add: read_freesurfer_surface_def bind_err_def)
qed

text \<open>
  C7.  \<^verbatim>\<open>read_freesurfer_surface\<close> raises the invalid-magic \<^verbatim>\<open>ValueError\<close> for every stream
  whose first three bytes are not \<open>ff ff fe\<close> (a stream shorter than three bytes included),
  and the end-of-file \<^verbatim>\<open>ValueError\<close> for every stream with the right magic in which no two
  consecutive newline bytes follow it.  In both cases \<^verbatim>\<open>convert_pial_to_brg1\<close> raises the
  same error and leaves the files and the console as they were.  The bytes of the comment
  do not reach the result: after the magic and a comment region, the result is that of
  reading the rest of the stream.
\<close>

theorem surface_reader_errors:
  "(take 3 contents \<noteq> [0xFF, 0xFF, 0xFE] \<longrightarrow>
      read_freesurfer_surface contents = Inl (InvalidMagic (take 3 contents))) \<and>
   (take 3 contents = [0xFF, 0xFF, 0xFE] \<and> \<not> has_terminator (drop 3 contents) \<longrightarrow>
      read_freesurfer_surface contents = Inl UnexpectedEOF) \<and>
   (files w pial_path = Some contents \<and>
    (take 3 contents \<noteq> [0xFF, 0xFF, 0xFE] \<or> \<not> has_terminator (drop 3 contents)) \<longrightarrow>
      convert_pial_to_brg1 ops gzip pial_path output_path w =
        (Inl (if take 3 contents \<noteq> [0xFF, 0xFF, 0xFE] then InvalidMagic (take 3 contents)
              else UnexpectedEOF), w)) \<and>
   (comment_region comment \<longrightarrow>
      read_freesurfer_surface ([0xFF, 0xFF, 0xFE] @ comment @ body) = read_body body)"
proof (intro conjI impI)
  show magic: "read_freesurfer_surface contents = Inl (InvalidMagic (take 3 contents))"
    if "take 3 contents \<noteq> [0xFF, 0xFF, 0xFE]"
    using that by (simp add: read_freesurfer_surface_def)
  show eof: "read_freesurfer_surface contents = Inl UnexpectedEOF"
    if "take 3 contents = [0xFF, 0xFF, 0xFE] \<and> \<not> has_terminator (drop 3 contents)"
    using that read_freesurfer_surface_eof by blast
  show "convert_pial_to_brg1 ops gzip pial_path output_path w =
        (Inl (if take 3 contents \<noteq> [0xFF, 0xFF, 0xFE] then InvalidMagic (take 3 contents)
              else UnexpectedEOF), w)"
    if h: "files w pial_path = Some contents \<and>
       (take 3 contents \<noteq> [0xFF, 0xFF, 0xFE] \<or> \<not> has_terminator (drop 3 contents))"
  proof (cases "take 3 contents \<noteq> [0xFF, 0xFF, 0xFE]")
    case True
    then show ?thesis
      using h magic by (simp add: convert_pial_to_brg1_def)
  next
    case False
    then have "read_freesurfer_surface contents = Inl UnexpectedEOF"
      using h eof by blast
    then show ?thesis
      using h False by (simp add: convert_pial_to_brg1_def)
  qed
  show "read_freesurfer_surface ([0xFF, 0xFF, 0xFE] @ comment @ body) = read_body body"
    if "comment_region comment"
    using that by (rule read_freesurfer_surface_comment)
qed

theorem surface_reader_errors_witness:
  "read_freesurfer_surface [0x00, 0x01, 0x02] = Inl (InvalidMagic [0x00, 0x01, 0x02]) \<and>
   read_freesurfer_surface [0xFF, 0xFF, 0xFE, 0x61, 0x62, 0x0A] = Inl UnexpectedEOF \<and>
   (\<forall>ops gzip. convert_pial_to_brg1 ops gzip ''lh.pial'' ''lh_geometry.bin.gz'' truncated_world
     = (Inl UnexpectedEOF, truncated_world)) \<and>
   read_freesurfer_surface ([0xFF, 0xFF, 0xFE] @ test_comment @ [0, 0, 0, 0, 0, 0, 0, 0])
     = Inr ([], [])"
proof -
  have c: "comment_region test_comment"
    by (simp add: comment_region_def test_comment_def endswith_def)
  have f: "files truncated_world ''lh.pial'' = Some [0xFF, 0xFF, 0xFE, 0x61, 0x62, 0x0A]"
    by (simp add: truncated_world_def)
  have b: "read_body [0, 0, 0, 0, 0, 0, 0, 0] = Inr ([], [])"
    by (simp add: read_body_def bind_err_def be_word_def le_word_def)
  have "convert_pial_to_brg1 ops gzip ''lh.pial'' ''lh_geometry.bin.gz'' truncated_world
     = (Inl UnexpectedEOF, truncated_world)" for ops gzip
    using surface_reader_errors [where contents = "[0xFF, 0xFF, 0xFE, 0x61, 0x62, 0x0A]"
        and w = truncated_world and pial_path = "''lh.pial''" and ops = ops and gzip = gzip
        and output_path = "''lh_geometry.bin.gz''"] f
    by simp
  then show ?thesis
    using surface_reader_errors [where contents = "[0x00, 0x01, 0x02]"]
      surface_reader_errors [where contents = "[0xFF, 0xFF, 0xFE, 0x61, 0x62, 0x0A]"
        and comment = test_comment and body = "[0, 0, 0, 0, 0, 0, 0, 0]"]
      c b
    by simp
qed

section \<open>The face loop and the final division\<close>

text \<open>The accumulators after one face: the face normal is added once per occurrence of a vertex.\<close>

lemma add_face_adds:
  fixes ops :: "'a fp_ops" and vertices normals :: "'a vec3 list" and f0 f1 f2 :: u32
  assumes "unat f0 < length vertices" and "unat f1 < length vertices" and "unat f2 < length vertices"
    and "length normals = length vertices"
  defines "a \<equiv> face_normal ops (vertices ! unat f0) (vertices ! unat f1) (vertices ! unat f2)"
  shows "\<exists>normals'. add_face ops vertices normals (f0, f1, f2) = Inr normals' \<and>
           length normals' = length normals \<and>
           (\<forall>j < length normals. normals' ! j =
              ((\<lambda>u. vadd ops u a) ^^ count_list [unat f0, unat f1, unat f2] j) (normals ! j))"
proof -
  define n1 where "n1 = normals[unat f0 := vadd ops (normals ! unat f0) a]"
  define n2 where "n2 = n1[unat f1 := vadd ops (n1 ! unat f1) a]"
  define n3 where "n3 = n2[unat f2 := vadd ops (n2 ! unat f2) a]"
  have res: "add_face ops vertices normals (f0, f1, f2) = Inr n3"
    using assms(1-3) by (simp add: add_face_def Let_def n3_def n2_def n1_def a_def)
  have len: "length n3 = length normals"
    by (simp add: n3_def n2_def n1_def)
  have nth: "n3 ! j = ((\<lambda>u. vadd ops u a) ^^ count_list [unat f0, unat f1, unat f2] j) (normals ! j)"
    if j: "j < length normals" for j
  proof -
    have j1: "n1 ! j = ((\<lambda>u. vadd ops u a) ^^ count_list [unat f0] j) (normals ! j)"
      using j by (simp add: n1_def nth_list_update)
    have j2: "n2 ! j = ((\<lambda>u. vadd ops u a) ^^ count_list [unat f0, unat f1] j) (normals ! j)"
    proof (cases "j = unat f1")
      case True
      then have "n2 ! j = vadd ops (n1 ! j) a"
        using j by (simp add: n2_def n1_def)
      then show ?thesis
        using True j1 by simp
    next
      case False
      then have "n2 ! j = n1 ! j" by (simp add: n2_def)
      then show ?thesis using False j1 by simp
    qed
    show ?thesis
    proof (cases "j = unat f2")
      case True
      then have "n3 ! j = vadd ops (n2 ! j) a"
        using j by (simp add: n3_def n2_def n1_def)
      then show ?thesis
        using True j2 by simp
    next
      case False
      then have "n3 ! j = n2 ! j" by (simp add: n3_def)
      then show ?thesis using False j2 by simp
    qed
  qed
  show ?thesis
    using res len nth by blast
qed

lemma compute_vertex_normals_acc:
  assumes "accumulate ops vertices (replicate (length vertices) (fzero ops, fzero ops, fzero ops)) faces
             = Inr acc"
  shows "compute_vertex_normals ops vertices faces =
     Inr (map2 (vdiv ops) acc
           (map (\<lambda>n. if lt_eps ops n then fone ops else n) (map (linalg_norm ops) acc)))"
  unfolding compute_vertex_normals_def Let_def assms bind_err_def sum.case ..

lemma compute_vertex_normals_Inr:
  assumes "compute_vertex_normals ops vertices faces = Inr normals"
  shows "\<exists>acc. accumulate ops vertices (replicate (length vertices) (fzero ops, fzero ops, fzero ops))
                  faces = Inr acc \<and>
               length acc = length vertices \<and>
               normals = map2 (vdiv ops) acc
                 (map (\<lambda>n. if lt_eps ops n then fone ops else n) (map (linalg_norm ops) acc))"
proof (cases "accumulate ops vertices (replicate (length vertices) (fzero ops, fzero ops, fzero ops)) faces")
  case (Inl e)
  then have "compute_vertex_normals ops vertices faces = Inl e"
    unfolding compute_vertex_normals_def Let_def bind_err_def by simp
  then show ?thesis using assms by simp
next
  case (Inr acc)
  have "length acc = length vertices"
    using accumulate_cases [where ops = ops and vertices = vertices
        and normals = "replicate (length vertices) (fzero ops, fzero ops, fzero ops)"
        and faces = faces]
    unfolding Inr by simp
  then show ?thesis
    using assms compute_vertex_normals_acc [OF Inr] Inr by simp
qed

lemma nth_map2_vdiv:
  "i < length acc \<Longrightarrow>
     map2 (vdiv ops) acc (map f (map g acc)) ! i = vdiv ops (acc ! i) (f (g (acc ! i)))"
  by simp

subsection \<open>The normals hold no signalling NaN\<close>

lemma vdiv_no_snan:
  assumes "\<And>a b. \<not> is_snan (fdiv ops a b)"
  shows "no_snan3 (vdiv ops u s)"
  by (cases u) (simp add: vdiv_def no_snan3_def assms)

lemma compute_vertex_normals_no_snan:
  assumes "\<And>a b. \<not> is_snan (fdiv ops a b)"
    and "compute_vertex_normals ops vertices faces = Inr normals"
  shows "list_all no_snan3 normals" and "length normals = length vertices"
proof -
  obtain acc where acc: "length acc = length vertices"
    and n: "normals = map2 (vdiv ops) acc
                 (map (\<lambda>n. if lt_eps ops n then fone ops else n) (map (linalg_norm ops) acc))"
    using compute_vertex_normals_Inr [OF assms(2)] by blast
  show "length normals = length vertices"
    by (simp add: n acc)
  show "list_all no_snan3 normals"
    unfolding n list_all_iff using vdiv_no_snan [OF assms(1)] by auto
qed

text \<open>
  The conversion of a file: with a division that returns no signalling NaN, as that of
  IEEE 754 arithmetic, a surface that is read and whose face indices are in range is
  written as a buffer that decodes to the surface read and the normals computed.
\<close>

lemma convert_pial_to_brg1_roundtrip:
  assumes "\<And>a b. \<not> is_snan (fdiv ops a b)"
    and "files w pial_path = Some contents"
    and "read_freesurfer_surface contents = Inr (vertices, faces)"
    and "compute_vertex_normals ops vertices faces = Inr normals"
  shows "\<exists>buf. fst (convert_pial_to_brg1 ops gzip pial_path output_path w) = Inr () \<and>
           files (snd (convert_pial_to_brg1 ops gzip pial_path output_path w)) output_path
             = Some (gzip buf) \<and>
           decode_geom_container buf =
             Some \<lparr>gc_n_vertices = length vertices, gc_n_faces = length faces,
                    gc_vertices = vertices, gc_normals = normals, gc_faces = faces\<rparr>"
proof -
  note s = read_freesurfer_surface_no_snan [OF assms(3)]
  note n = compute_vertex_normals_no_snan [OF assms(1) assms(4)]
  obtain buf where buf: "build_brg1 vertices normals faces = Inr buf"
    and dec: "decode_geom_container buf =
             Some \<lparr>gc_n_vertices = length vertices, gc_n_faces = length faces,
                    gc_vertices = map quiet3 vertices, gc_normals = map quiet3 normals,
                    gc_faces = faces\<rparr>"
    using build_brg1_decoded [OF n(2) s(2) s(3)] by blast
  have conv: "convert_pial_to_brg1 ops gzip pial_path output_path w =
      (Inr (), print (Counts (length vertices) (length faces))
         (print (Converted pial_path output_path)
            (w\<lparr>files := (files w)(output_path \<mapsto> gzip buf)\<rparr>)))"
    unfolding convert_pial_to_brg1_def Let_def by (simp add: assms(2-4) buf)
  show ?thesis
    using dec by (intro exI [of _ buf]) (simp add: conv print_def map_quiet3_id s(1) n(1))
qed

subsection \<open>Exact arithmetic\<close>

lemma exact_ops_simps [simp]:
  "fadd exact_ops = (+)" "fsub exact_ops = (-)" "fmul exact_ops = (*)" "fdiv exact_ops = (/)"
  "fsqrt exact_ops = sqrt" "fzero exact_ops = 0" "fone exact_ops = 1"
  "gt_eps exact_ops x \<longleftrightarrow> x > 1 / 10 ^ 10" "lt_eps exact_ops x \<longleftrightarrow> x < 1 / 10 ^ 10"
  by (simp_all add: exact_ops_def)

lemma linalg_norm_exact:
  "linalg_norm exact_ops (x, y, z) = sqrt (x * x + y * y + z * z)"
  by (simp add: linalg_norm_def)

lemma linalg_norm_z: "linalg_norm exact_ops (0, 0, z) = \<bar>z\<bar>"
  by (simp add: linalg_norm_def)

text \<open>In exact arithmetic a vector of positive magnitude divided by its magnitude has magnitude 1.\<close>

lemma unit_norm:
  assumes "0 < linalg_norm exact_ops n"
  shows "linalg_norm exact_ops (vdiv exact_ops n (linalg_norm exact_ops n)) = 1"
proof -
  obtain x y z where n: "n = (x, y, z)" by (cases n) auto
  define q where "q = x * x + y * y + z * z"
  have s: "linalg_norm exact_ops n = sqrt q"
    by (simp add: n linalg_norm_exact q_def)
  have q: "0 < q" using assms s by simp
  define r where "r = sqrt q"
  have rr: "r * r = q" and r0: "r \<noteq> 0"
    using q by (simp_all add: r_def)
  have "(x / r) * (x / r) + (y / r) * (y / r) + (z / r) * (z / r) = (x * x + y * y + z * z) / (r * r)"
    by (simp add: add_divide_distrib)
  also have "\<dots> = 1"
    using q by (simp add: rr q_def [symmetric])
  finally have "sqrt ((x / r) * (x / r) + (y / r) * (y / r) + (z / r) * (z / r)) = 1"
    by simp
  then show ?thesis
    unfolding s r_def [symmetric] by (simp add: n vdiv_def linalg_norm_exact)
qed

lemma unat_012: "unat (0 :: u32) = 0" "unat (1 :: u32) = 1" "unat (2 :: u32) = 2"
  by simp_all

subsection \<open>The vector a face adds\<close>

text \<open>
  C5 as stated fails: the cross product of the edges of \<open>tiny_triangle\<close> is (0, 0, 2^-40),
  of magnitude 2^-40 which does not exceed 1e-10, and the face adds this vector, not the
  zero vector, to each of its three vertices.
\<close>

theorem degenerate_face_counterexample:
  "linalg_norm exact_ops (cross exact_ops (vsub exact_ops (tiny_triangle ! 1) (tiny_triangle ! 0))
       (vsub exact_ops (tiny_triangle ! 2) (tiny_triangle ! 0))) \<le> 1 / 10 ^ 10 \<and>
   add_face exact_ops tiny_triangle [(0, 0, 0), (0, 0, 0), (0, 0, 0)] (0, 1, 2)
     = Inr [(0, 0, 1 / 2 ^ 40), (0, 0, 1 / 2 ^ 40), (0, 0, 1 / 2 ^ 40)] \<and>
   (0, 0, 1 / 2 ^ 40) \<noteq> (0 :: real, 0 :: real, 0 :: real)"
proof -
  have n: "cross exact_ops (vsub exact_ops (tiny_triangle ! 1) (tiny_triangle ! 0))
       (vsub exact_ops (tiny_triangle ! 2) (tiny_triangle ! 0)) = (0, 0, 1 / 2 ^ 40)"
    by (simp add: tiny_triangle_def cross_def vsub_def)
  have m: "linalg_norm exact_ops (0, 0, 1 / 2 ^ 40) = 1 / 2 ^ 40"
    by (simp add: linalg_norm_z)
  have small: "(1 :: real) / 2 ^ 40 \<le> 1 / 10 ^ 10"
    by simp
  have fn: "face_normal exact_ops (tiny_triangle ! 0) (tiny_triangle ! 1) (tiny_triangle ! 2)
      = (0, 0, 1 / 2 ^ 40)"
    unfolding face_normal_def Let_def n m using small by simp
  have "add_face exact_ops tiny_triangle [(0, 0, 0), (0, 0, 0), (0, 0, 0)] (0, 1, 2)
     = Inr [(0, 0, 1 / 2 ^ 40), (0, 0, 1 / 2 ^ 40), (0, 0, 1 / 2 ^ 40)]"
    unfolding add_face_def Let_def prod.case unat_012 fn
    by (simp add: tiny_triangle_def vadd_def numeral_2_eq_2)
  then show ?thesis
    using n m small by simp
qed

text \<open>
  C5, amended.  For every arithmetic, and so for the float32 arithmetic of numpy: for a
  face whose indices are in range, let \<open>n\<close> be the cross product of edge1 = v1 - v0 and
  edge2 = v2 - v0.  The face adds one vector to the accumulator of each of its vertices
  (once for each position at which the vertex occurs in the face) and leaves the other
  accumulators alone.  When the test \<open>norm > 1e-10\<close> succeeds that vector is \<open>n\<close> divided by
  its magnitude; when it fails (a magnitude that does not exceed 1e-10, or a NaN) it is \<open>n\<close>
  itself, not normalised and not replaced by zero.
\<close>

theorem face_contribution:
  fixes ops :: "'a fp_ops" and vertices normals :: "'a vec3 list"
  assumes "unat f0 < length vertices" and "unat f1 < length vertices" and "unat f2 < length vertices"
    and "length normals = length vertices"
  shows "let n = cross ops (vsub ops (vertices ! unat f1) (vertices ! unat f0))
                   (vsub ops (vertices ! unat f2) (vertices ! unat f0));
             a = (if gt_eps ops (linalg_norm ops n) then vdiv ops n (linalg_norm ops n) else n)
         in \<exists>normals'. add_face ops vertices normals (f0, f1, f2) = Inr normals' \<and>
               length normals' = length normals \<and>
               (\<forall>j < length normals. normals' ! j =
                  ((\<lambda>u. vadd ops u a) ^^ count_list [unat f0, unat f1, unat f2] j) (normals ! j))"
proof -
  have "face_normal ops (vertices ! unat f0) (vertices ! unat f1) (vertices ! unat f2) =
      (let n = cross ops (vsub ops (vertices ! unat f1) (vertices ! unat f0))
                   (vsub ops (vertices ! unat f2) (vertices ! unat f0))
       in if gt_eps ops (linalg_norm ops n) then vdiv ops n (linalg_norm ops n) else n)"
    by (simp add: face_normal_def Let_def)
  then show ?thesis
    using add_face_adds [OF assms, of ops] unfolding Let_def by simp
qed

theorem face_contribution_witness:
  "unat (0 :: u32) < length triangle \<and> unat (1 :: u32) < length triangle \<and>
   unat (2 :: u32) < length triangle \<and>
   (\<exists>normals'. add_face exact_ops triangle [(0, 0, 0), (0, 0, 0), (0, 0, 0)] (0, 1, 2) = Inr normals' \<and>
      length normals' = 3 \<and>
      normals' ! 0 = (0, 0, 1) \<and> normals' ! 1 = (0, 0, 1) \<and> normals' ! 2 = (0, 0, 1))"
proof -
  have r: "unat (0 :: u32) < length triangle" "unat (1 :: u32) < length triangle"
      "unat (2 :: u32) < length triangle"
    and l: "length [(0 :: real, 0 :: real, 0 :: real), (0, 0, 0), (0, 0, 0)] = length triangle"
    by (simp_all add: triangle_def)
  have n: "cross exact_ops (vsub exact_ops (triangle ! unat (1 :: u32)) (triangle ! unat (0 :: u32)))
       (vsub exact_ops (triangle ! unat (2 :: u32)) (triangle ! unat (0 :: u32))) = (0, 0, 1)"
    by (simp add: triangle_def cross_def vsub_def)
  have m: "linalg_norm exact_ops (0, 0, 1) = 1"
    by (simp add: linalg_norm_z)
  have d: "vdiv exact_ops (0, 0, 1) 1 = (0, 0, 1)"
    by (simp add: vdiv_def)
  have g: "gt_eps exact_ops 1"
    by simp
  obtain normals' where
    res: "add_face exact_ops triangle [(0, 0, 0), (0, 0, 0), (0, 0, 0)] (0, 1, 2) = Inr normals'"
    and len: "length normals' = 3"
    and nth: "\<forall>j < 3. normals' ! j =
        ((\<lambda>u. vadd exact_ops u (0, 0, 1)) ^^
           count_list [unat (0 :: u32), unat (1 :: u32), unat (2 :: u32)] j)
          ([(0, 0, 0), (0, 0, 0), (0, 0, 0)] ! j)"
    using face_contribution [OF r l, of exact_ops]
    unfolding Let_def n m d using g by auto
  have "normals' ! 0 = (0, 0, 1)" "normals' ! 1 = (0, 0, 1)" "normals' ! 2 = (0, 0, 1)"
    using nth by (simp_all add: vadd_def)
  then show ?thesis
    using r res len by blast
qed

subsection \<open>The normals returned\<close>

text \<open>
  C6 as stated fails: in \<open>triangle\<close> with the faces (0,1,2) and (0,2,1), each vertex is
  referenced by the non-degenerate face (0,1,2), whose cross product has magnitude 1; the
  two unit face normals cancel, the accumulated magnitude 0 is below 1e-10, the divisor
  becomes 1.0, and every output normal is the zero vector, of magnitude 0 and not 1.
\<close>

theorem cancelling_faces_counterexample:
  "linalg_norm exact_ops (cross exact_ops (vsub exact_ops (triangle ! 1) (triangle ! 0))
       (vsub exact_ops (triangle ! 2) (triangle ! 0))) = 1 \<and>
   compute_vertex_normals exact_ops triangle [(0, 1, 2), (0, 2, 1)]
     = Inr [(0, 0, 0), (0, 0, 0), (0, 0, 0)] \<and>
   linalg_norm exact_ops (0, 0, 0) = 0"
proof -
  have n1: "cross exact_ops (vsub exact_ops (triangle ! 1) (triangle ! 0))
       (vsub exact_ops (triangle ! 2) (triangle ! 0)) = (0, 0, 1)"
    and n2: "cross exact_ops (vsub exact_ops (triangle ! 2) (triangle ! 0))
       (vsub exact_ops (triangle ! 1) (triangle ! 0)) = (0, 0, - 1)"
    by (simp_all add: triangle_def cross_def vsub_def)
  have m: "linalg_norm exact_ops (0, 0, 1) = 1" "linalg_norm exact_ops (0, 0, - 1) = 1"
      "linalg_norm exact_ops (0, 0, 0) = 0"
    by (simp_all add: linalg_norm_z)
  have fn1: "face_normal exact_ops (triangle ! 0) (triangle ! 1) (triangle ! 2) = (0, 0, 1)"
    unfolding face_normal_def Let_def n1 m by (simp add: vdiv_def)
  have fn2: "face_normal exact_ops (triangle ! 0) (triangle ! 2) (triangle ! 1) = (0, 0, - 1)"
    unfolding face_normal_def Let_def n2 m by (simp add: vdiv_def)
  have len: "length triangle = 3"
    by (simp add: triangle_def)
  have a1: "add_face exact_ops triangle [(0, 0, 0), (0, 0, 0), (0, 0, 0)] (0, 1, 2)
      = Inr [(0, 0, 1), (0, 0, 1), (0, 0, 1)]"
    unfolding add_face_def Let_def prod.case unat_012 fn1 len
    by (simp add: vadd_def numeral_2_eq_2)
  have a2: "add_face exact_ops triangle [(0, 0, 1), (0, 0, 1), (0, 0, 1)] (0, 2, 1)
      = Inr [(0, 0, 0), (0, 0, 0), (0, 0, 0)]"
    unfolding add_face_def Let_def prod.case unat_012 fn2 len
    by (simp add: vadd_def numeral_2_eq_2)
  have acc: "accumulate exact_ops triangle (replicate (length triangle) (0, 0, 0)) [(0, 1, 2), (0, 2, 1)]
      = Inr [(0, 0, 0), (0, 0, 0), (0, 0, 0)]"
    by (simp add: len numeral_3_eq_3 a1 a2)
  have "compute_vertex_normals exact_ops triangle [(0, 1, 2), (0, 2, 1)]
     = Inr [(0, 0, 0), (0, 0, 0), (0, 0, 0)]"
    unfolding compute_vertex_normals_def Let_def exact_ops_simps acc bind_err_def
    by (simp add: m vdiv_def)
  then show ?thesis
    using n1 m by simp
qed

text \<open>
  C6, amended.  For every arithmetic, and so for the float32 arithmetic of numpy: when the
  face loop ends with the accumulators \<open>acc\<close>, the estimator returns one normal per vertex,
  in vertex order, and normal \<open>i\<close> is accumulator \<open>i\<close> divided by its magnitude, with the
  divisor 1.0 in place of a magnitude below 1e-10.  Nothing more follows for a vertex from
  its being referenced by a non-degenerate face: the accumulated face normals may cancel.
\<close>

theorem vertex_normalisation:
  fixes ops :: "'a fp_ops" and vertices :: "'a vec3 list"
  assumes "accumulate ops vertices (replicate (length vertices) (fzero ops, fzero ops, fzero ops)) faces
             = Inr acc"
  shows "\<exists>normals. compute_vertex_normals ops vertices faces = Inr normals \<and>
           length normals = length vertices \<and> length acc = length vertices \<and>
           (\<forall>i < length vertices.
              normals ! i = vdiv ops (acc ! i)
                 (if lt_eps ops (linalg_norm ops (acc ! i)) then fone ops
                  else linalg_norm ops (acc ! i)))"
proof -
  define normals where "normals = map2 (vdiv ops) acc
           (map (\<lambda>n. if lt_eps ops n then fone ops else n) (map (linalg_norm ops) acc))"
  have res: "compute_vertex_normals ops vertices faces = Inr normals"
    unfolding normals_def by (rule compute_vertex_normals_acc [OF assms])
  have lacc: "length acc = length vertices"
    using accumulate_cases [where ops = ops and vertices = vertices
        and normals = "replicate (length vertices) (fzero ops, fzero ops, fzero ops)"
        and faces = faces]
    unfolding assms by simp
  have len: "length normals = length vertices"
    unfolding normals_def by (simp add: lacc)
  have nth: "normals ! i = vdiv ops (acc ! i)
                 (if lt_eps ops (linalg_norm ops (acc ! i)) then fone ops
                  else linalg_norm ops (acc ! i))" if "i < length vertices" for i
    unfolding normals_def using that lacc by (intro nth_map2_vdiv) simp
  show ?thesis
  proof (intro exI [of _ normals] conjI allI impI)
    show "compute_vertex_normals ops vertices faces = Inr normals" by (rule res)
    show "length normals = length vertices" by (rule len)
    show "length acc = length vertices" by (rule lacc)
    show "normals ! i = vdiv ops (acc ! i)
                 (if lt_eps ops (linalg_norm ops (acc ! i)) then fone ops
                  else linalg_norm ops (acc ! i))" if "i < length vertices" for i
      by (rule nth [OF that])
  qed
qed

theorem vertex_normalisation_witness:
  "accumulate exact_ops triangle (replicate (length triangle) (0, 0, 0)) [(0, 1, 2)]
     = Inr [(0, 0, 1), (0, 0, 1), (0, 0, 1)] \<and>
   (\<exists>normals. compute_vertex_normals exact_ops triangle [(0, 1, 2)] = Inr normals \<and>
      length normals = 3 \<and>
      normals ! 0 = (0, 0, 1) \<and> linalg_norm exact_ops (normals ! 0) = 1)"
proof -
  have n1: "cross exact_ops (vsub exact_ops (triangle ! 1) (triangle ! 0))
       (vsub exact_ops (triangle ! 2) (triangle ! 0)) = (0, 0, 1)"
    by (simp add: triangle_def cross_def vsub_def)
  have m: "linalg_norm exact_ops (0, 0, 1) = 1"
    by (simp add: linalg_norm_z)
  have fn1: "face_normal exact_ops (triangle ! 0) (triangle ! 1) (triangle ! 2) = (0, 0, 1)"
    unfolding face_normal_def Let_def n1 m by (simp add: vdiv_def)
  have len: "length triangle = 3"
    by (simp add: triangle_def)
  have a1: "add_face exact_ops triangle [(0, 0, 0), (0, 0, 0), (0, 0, 0)] (0, 1, 2)
      = Inr [(0, 0, 1), (0, 0, 1), (0, 0, 1)]"
    unfolding add_face_def Let_def prod.case unat_012 fn1 len
    by (simp add: vadd_def numeral_2_eq_2)
  have acc: "accumulate exact_ops triangle (replicate (length triangle) (0, 0, 0)) [(0, 1, 2)]
      = Inr [(0, 0, 1), (0, 0, 1), (0, 0, 1)]"
    by (simp add: len numeral_3_eq_3 a1)
  have z: "replicate (length triangle) (fzero exact_ops, fzero exact_ops, fzero exact_ops)
      = replicate (length triangle) (0, 0, 0)"
    by simp
  obtain normals where
    res: "compute_vertex_normals exact_ops triangle [(0, 1, 2)] = Inr normals"
    and l: "length normals = 3"
    and nth: "\<forall>i < 3. normals ! i = vdiv exact_ops ([(0, 0, 1), (0, 0, 1), (0, 0, 1)] ! i)
                 (if lt_eps exact_ops (linalg_norm exact_ops ([(0, 0, 1), (0, 0, 1), (0, 0, 1)] ! i))
                  then fone exact_ops
                  else linalg_norm exact_ops ([(0, 0, 1), (0, 0, 1), (0, 0, 1)] ! i))"
    using vertex_normalisation [of exact_ops triangle "[(0, 1, 2)]", unfolded z, OF acc]
    unfolding len by auto
  have "normals ! 0 = (0, 0, 1)" "linalg_norm exact_ops (normals ! 0) = 1"
    using nth by (simp_all add: m vdiv_def)
  then show ?thesis
    using acc res l by blast
qed

section \<open>Properties of the metadata emitter\<close>

lemma STATISTICS_dom:
  "STATISTICS stat = Some n \<longleftrightarrow>
     (stat = ''conT'' \<and> n = 5) \<or> (stat = ''conTlp'' \<and> n = 5) \<or> (stat = ''beta'' \<and> n = 23)
     \<or> (stat = ''sigma2'' \<and> n = 1)"
  by (auto simp: STATISTICS_def)

lemma length_BETA_LABELS: "length BETA_LABELS = 23"
  by (simp add: BETA_LABELS_def)

lemma length_CONTRAST_LABELS: "length CONTRAST_LABELS = 5"
  by (simp add: CONTRAST_LABELS_def)

lemma shipped_tables_agree:
  "STATISTICS stat = Some n \<Longrightarrow> \<exists>meta. STAT_META stat = Some meta \<and> length (labels meta) = n"
  unfolding STATISTICS_dom
  by (auto simp: STAT_META_def length_BETA_LABELS length_CONTRAST_LABELS)

text \<open>
  C8 as stated fails in its second half: with a metadata entry of one label for a
  statistic whose expected volume count is five, the emitter raises nothing and writes the
  sidecar with a single volume.
\<close>

theorem label_count_counterexample:
  "STATISTICS ''conT'' = Some 5 \<and>
   map_option (length \<circ> labels) (short_labels_table ''conT'') = Some 1 \<and>
   fst (generate_metadata_json blank_dump short_labels_table ''lh'' ''des1'' ''conT'' ''out.json''
          empty_world) = Inr () \<and>
   files (snd (generate_metadata_json blank_dump short_labels_table ''lh'' ''des1'' ''conT''
          ''out.json'' empty_world)) ''out.json'' \<noteq> None"
  by (simp add: STATISTICS_def short_labels_table_def generate_metadata_json_def Let_def print_def)

text \<open>
  C8, amended.  The emitter raises \<^verbatim>\<open>KeyError\<close>, writing and printing nothing, exactly when
  the statistic identifier has no metadata entry.  With an entry it always succeeds and
  writes one \<open>{index, label}\<close> object per label of the entry, whatever the length of the
  label list; the table of expected volume counts is not consulted.  In the tables of the
  source the label list of every statistic has the expected length.
\<close>

theorem metadata_fails_on_missing_entry_only:
  "(stat_meta stat = None \<longrightarrow>
      generate_metadata_json json_dump stat_meta hemi analysis stat output_path w
        = (Inl (KeyError stat), w)) \<and>
   (\<forall>meta. stat_meta stat = Some meta \<longrightarrow>
      generate_metadata_json json_dump stat_meta hemi analysis stat output_path w
        = (Inr (), print (Generated output_path)
             (w\<lparr>files := (files w)(output_path \<mapsto>
                  json_dump (JObject (build_metadata meta hemi analysis stat)))\<rparr>)) \<and>
      map_of (build_metadata meta hemi analysis stat) ''volumes''
        = Some (JArray (map (\<lambda>(i, label). JObject [(''index'', JInt (int i)), (''label'', JString label)])
                          (enumerate 0 (labels meta))))) \<and>
   (\<forall>s n. STATISTICS s = Some n \<longrightarrow>
      (\<exists>meta. STAT_META s = Some meta \<and> length (labels meta) = n))"
proof (intro conjI allI impI)
  show "generate_metadata_json json_dump stat_meta hemi analysis stat output_path w
        = (Inl (KeyError stat), w)" if "stat_meta stat = None"
    using that by (simp add: generate_metadata_json_def)
  show "generate_metadata_json json_dump stat_meta hemi analysis stat output_path w
        = (Inr (), print (Generated output_path)
             (w\<lparr>files := (files w)(output_path \<mapsto>
                  json_dump (JObject (build_metadata meta hemi analysis stat)))\<rparr>))"
    if "stat_meta stat = Some meta" for meta
    using that by (simp add: generate_metadata_json_def Let_def)
  show "map_of (build_metadata meta hemi analysis stat) ''volumes''
        = Some (JArray (map (\<lambda>(i, label). JObject [(''index'', JInt (int i)), (''label'', JString label)])
                          (enumerate 0 (labels meta))))" for meta
    by (simp add: build_metadata_def)
  show "\<exists>meta. STAT_META s = Some meta \<and> length (labels meta) = n" if "STATISTICS s = Some n" for s n
    using that by (rule shipped_tables_agree)
qed

theorem metadata_fails_on_missing_entry_only_witness:
  "(\<forall>json_dump w.
      generate_metadata_json json_dump STAT_META ''lh'' ''des1'' ''conF'' ''out.json'' w
        = (Inl (KeyError ''conF''), w)) \<and>
   (\<forall>json_dump w.
      fst (generate_metadata_json json_dump STAT_META ''lh'' ''des1'' ''sigma2'' ''out.json'' w)
        = Inr ()) \<and>
   (\<exists>meta. STAT_META ''beta'' = Some meta \<and> length (labels meta) = 23)"
proof -
  have none: "STAT_META ''conF'' = None"
    by (simp add: STAT_META_def)
  obtain meta where some: "STAT_META ''sigma2'' = Some meta"
    by (simp add: STAT_META_def)
  have beta: "STATISTICS ''beta'' = Some 23"
    by (simp add: STATISTICS_def)
  have a: "generate_metadata_json json_dump STAT_META ''lh'' ''des1'' ''conF'' ''out.json'' w
        = (Inl (KeyError ''conF''), w)" for json_dump w
    using metadata_fails_on_missing_entry_only [where stat_meta = STAT_META and stat = "''conF''"
        and json_dump = json_dump and w = w] none
    by simp
  have b: "fst (generate_metadata_json json_dump STAT_META ''lh'' ''des1'' ''sigma2'' ''out.json'' w)
        = Inr ()" for json_dump w
    using metadata_fails_on_missing_entry_only [where stat_meta = STAT_META and stat = "''sigma2''"
        and json_dump = json_dump and w = w and hemi = "''lh''" and analysis = "''des1''"
        and output_path = "''out.json''"] some
    by simp
  have c: "\<exists>meta. STAT_META ''beta'' = Some meta \<and> length (labels meta) = 23"
    using metadata_fails_on_missing_entry_only [where stat_meta = STAT_META] beta
    by blast
  show ?thesis
    using a b c by blast
qed

text \<open>
  C10.  With a metadata entry for the statistic, the sidecar written to the output path is
  the dictionary of the emitter, and its \<open>hemisphere\<close> is \<open>left\<close> when the hemisphere
  identifier is exactly \<open>lh\<close> and \<open>right\<close> for every other string; no identifier is rejected.
\<close>

theorem hemisphere_left_only_for_lh:
  assumes "stat_meta stat = Some meta"
  shows "fst (generate_metadata_json json_dump stat_meta hemi analysis stat output_path w) = Inr () \<and>
         files (snd (generate_metadata_json json_dump stat_meta hemi analysis stat output_path w))
             output_path
           = Some (json_dump (JObject (build_metadata meta hemi analysis stat))) \<and>
         map_of (build_metadata meta hemi analysis stat) ''hemisphere''
           = Some (JString (if hemi = ''lh'' then ''left'' else ''right''))"
  using assms by (simp add: generate_metadata_json_def Let_def print_def build_metadata_def)

theorem hemisphere_left_only_for_lh_witness:
  "\<exists>meta. STAT_META ''sigma2'' = Some meta \<and>
     map_of (build_metadata meta ''lh'' ''des1'' ''sigma2'') ''hemisphere'' = Some (JString ''left'') \<and>
     map_of (build_metadata meta ''rh'' ''des1'' ''sigma2'') ''hemisphere'' = Some (JString ''right'') \<and>
     map_of (build_metadata meta ''LH'' ''des1'' ''sigma2'') ''hemisphere'' = Some (JString ''right'') \<and>
     map_of (build_metadata meta '''' ''des1'' ''sigma2'') ''hemisphere'' = Some (JString ''right'') \<and>
     (\<forall>json_dump w.
        fst (generate_metadata_json json_dump STAT_META ''LH'' ''des1'' ''sigma2'' ''out.json'' w)
          = Inr ())"
proof -
  obtain meta where some: "STAT_META ''sigma2'' = Some meta"
    by (simp add: STAT_META_def)
  note h = hemisphere_left_only_for_lh [where stat_meta = STAT_META and stat = "''sigma2''", OF some]
  have "map_of (build_metadata meta ''lh'' ''des1'' ''sigma2'') ''hemisphere'' = Some (JString ''left'')"
    using h [where hemi = "''lh''" and analysis = "''des1''"] by simp
  moreover have "map_of (build_metadata meta ''rh'' ''des1'' ''sigma2'') ''hemisphere'' = Some (JString ''right'')"
    using h [where hemi = "''rh''" and analysis = "''des1''"] by simp
  moreover have "map_of (build_metadata meta ''LH'' ''des1'' ''sigma2'') ''hemisphere'' = Some (JString ''right'')"
    using h [where hemi = "''LH''" and analysis = "''des1''"] by simp
  moreover have "map_of (build_metadata meta [] ''des1'' ''sigma2'') ''hemisphere'' = Some (JString ''right'')"
    using h [where hemi = "[]" and analysis = "''des1''"] by simp
  moreover have "fst (generate_metadata_json json_dump STAT_META ''LH'' ''des1'' ''sigma2'' ''out.json'' w)
          = Inr ()" for json_dump w
    using h [where hemi = "''LH''" and analysis = "''des1''" and json_dump = json_dump and w = w
        and output_path = "''out.json''"] by simp
  ultimately show ?thesis
    using some by blast
qed

end
